theory Spec2Isabelle
  imports Main "HOL-Library.Word" "HOL-Library.Signed_Division"
begin

section \<open>Transfer planner (runtime/realm/transfer/transfer.cc)\<close>

subsection \<open>Handles, runtime tables and plan data\<close>

text \<open>
  Memories, instances and nodes are identified by their numeric ids, as the handles of
  the source are (\<open>Memory\<close>, \<open>RegionInstance\<close>, \<open>gasnet_node_t\<close>). The record
  \<open>runtime\<close> collects what the planner reads from \<open>get_runtime()\<close>, from the
  \<open>ID\<close> decoder and from gasnet; their implementations are in files the planner
  only includes, so they are parameters of every function below.
\<close>

type_synonym gasnet_node_t = nat
type_synonym Memory = nat
type_synonym RegionInstance = nat
type_synonym ReductionOpID = nat
type_synonym Event = nat

datatype MemoryKind =
    MKIND_SYSMEM | MKIND_GLOBAL | MKIND_RDMA | MKIND_REMOTE | MKIND_GPUFB
  | MKIND_ZEROCOPY | MKIND_DISK | MKIND_FILE | MKIND_HDF

record runtime =
  gasnet_mynode :: gasnet_node_t
  memory_owner_node :: "Memory \<Rightarrow> gasnet_node_t"
  instance_owner_node :: "RegionInstance \<Rightarrow> gasnet_node_t"
  memory_impl_kind :: "Memory \<Rightarrow> MemoryKind"
  get_location :: "RegionInstance \<Rightarrow> Memory"
  instance_impl_memory :: "RegionInstance \<Rightarrow> Memory"

text \<open>
  \<open>CopySrcDstField\<close>: the planner reads \<open>inst\<close>, \<open>offset\<close>, \<open>size\<close> and
  \<open>serdez_id\<close>. Offsets and sizes are byte counts held in an \<open>unsigned\<close>, as are
  the sub-offsets of \<open>plan_copy\<close> and the offset of a fill plan: 32-bit words, whose
  sums and differences wrap around. The serdez identifier is only compared with 0.
\<close>

type_synonym unsigned = "32 word"

record CopySrcDstField =
  inst :: RegionInstance
  offset :: unsigned
  size :: unsigned
  serdez_id :: nat

record OffsetsAndSize =
  src_offset :: unsigned
  dst_offset :: unsigned
  oas_size :: unsigned
  oas_serdez_id :: nat

type_synonym InstPair = "RegionInstance \<times> RegionInstance"
type_synonym MemPair = "Memory \<times> Memory"
type_synonym OASVec = "OffsetsAndSize list"

text \<open>
  \<open>OASByInst\<close> is a \<open>std::map<InstPair, OASVec>\<close> and \<open>OASByMem\<close> a
  \<open>std::map<MemPair, OASByInst *>\<close>. Iteration order matters (it is the order of
  the plans), so both are association lists kept in increasing key order, the order
  of \<open>std::pair\<close>'s \<open>operator<\<close> on the handle ids.
\<close>

type_synonym OASByInst = "(InstPair \<times> OASVec) list"
type_synonym OASByMem = "(MemPair \<times> OASByInst) list"

definition pair_lt :: "nat \<times> nat \<Rightarrow> nat \<times> nat \<Rightarrow> bool" where
  "pair_lt a b = (fst a < fst b \<or> (\<not> fst b < fst a \<and> snd a < snd b))"

text \<open>
  \<open>m[k]\<close> followed by a change of the mapped value: \<open>std::map::operator[]\<close> inserts
  a default-constructed value at the key's place in the order when the key is new.
  \<open>f\<close> gets \<open>None\<close> for a new key and the old value otherwise, and returns the value
  to store.
\<close>

fun std_map_update ::
  "nat \<times> nat \<Rightarrow> ('v option \<Rightarrow> 'v) \<Rightarrow> ((nat \<times> nat) \<times> 'v) list \<Rightarrow> ((nat \<times> nat) \<times> 'v) list" where
  "std_map_update k f [] = [(k, f None)]"
| "std_map_update k f ((k', v) # m) =
     (if k' = k then (k', f (Some v)) # m
      else if pair_lt k k' then (k, f None) # (k', v) # m
      else (k', v) # std_map_update k f m)"

text \<open>\<open>(*oas_by_inst)[ip].push_back(oas)\<close>\<close>

definition oas_by_inst_push :: "InstPair \<Rightarrow> OffsetsAndSize \<Rightarrow> OASByInst \<Rightarrow> OASByInst" where
  "oas_by_inst_push ip oas m =
     std_map_update ip (\<lambda>old. (case old of None \<Rightarrow> [] | Some vec \<Rightarrow> vec) @ [oas]) m"

text \<open>
  \<open>oas_by_mem.find(mp)\<close>, with a new empty \<open>OASByInst\<close> stored under \<open>mp\<close> when there
  is none, followed by the \<open>push_back\<close> into the one found or made.
\<close>

definition oas_by_mem_push :: "MemPair \<Rightarrow> InstPair \<Rightarrow> OffsetsAndSize \<Rightarrow> OASByMem \<Rightarrow> OASByMem" where
  "oas_by_mem_push mp ip oas m =
     std_map_update mp
       (\<lambda>old. oas_by_inst_push ip oas (case old of None \<Rightarrow> [] | Some oas_by_inst \<Rightarrow> oas_by_inst)) m"

datatype TransferPlan =
    TransferPlanCopy OASByInst
  | TransferPlanReduce "CopySrcDstField list" CopySrcDstField ReductionOpID bool
  | TransferPlanFill "8 word list" RegionInstance unsigned

datatype error = AssertFailed | FatalInsufficientFillData | OutOfRange | DivisionByZero
  | NullPointer | Diverges | DriverError

subsection \<open>Node selection and plan execution\<close>

datatype log_entry = Warning_gasnet_to_gasnet gasnet_node_t

text \<open>
  \<open>select_dma_node\<close>: the node and the warnings it logs. The reduction arguments are
  taken and not read, as in the source.
\<close>

definition select_dma_node ::
  "runtime \<Rightarrow> Memory \<Rightarrow> Memory \<Rightarrow> ReductionOpID \<Rightarrow> bool \<Rightarrow> gasnet_node_t \<times> log_entry list" where
  "select_dma_node rt src_mem dst_mem redop_id red_fold =
     (let src_node = memory_owner_node rt src_mem;
          dst_node = memory_owner_node rt dst_mem;
          src_is_rdma = (memory_impl_kind rt src_mem = MKIND_GLOBAL);
          dst_is_rdma = (memory_impl_kind rt dst_mem = MKIND_GLOBAL)
      in if src_is_rdma then
           (if dst_is_rdma then (gasnet_mynode rt, [Warning_gasnet_to_gasnet (gasnet_mynode rt)])
            else (dst_node, []))
         else
           (if dst_is_rdma then (src_node, [])
            else (src_node, [])))"

text \<open>
  What \<open>execute_plan\<close> hands over: the request object it builds, and where it goes:
  into the local operation table (\<open>add_local_operation\<close> and \<open>check_readiness\<close>) or
  forwarded to another node (\<open>forward_request\<close> and \<open>add_remote_operation\<close>).
  The transfer domain and the profiling requests are passed through untouched and are
  left out of the request.
\<close>

datatype DmaRequest =
    CopyRequest OASByInst Event Event int
  | ReduceRequest "CopySrcDstField list" CopySrcDstField bool ReductionOpID bool Event Event int
  | FillRequest CopySrcDstField "8 word list" Event Event int

datatype dispatch =
    LocalOperation Event DmaRequest
  | RemoteOperation Event gasnet_node_t DmaRequest

record execute_result =
  finish_event :: Event
  dispatched :: dispatch
  logged :: "log_entry list"

definition dispatch_to :: "runtime \<Rightarrow> gasnet_node_t \<Rightarrow> Event \<Rightarrow> DmaRequest \<Rightarrow> dispatch" where
  "dispatch_to rt n ev r =
     (if n = gasnet_mynode rt then LocalOperation ev r else RemoteOperation ev n r)"

text \<open>
  \<open>execute_plan\<close> of the three plan classes. \<open>ev\<close> stands for the event that
  \<open>GenEventImpl::create_genevent()\<close> hands out. An empty \<open>oas_by_inst\<close> fails the
  assertion of the copy plan; a reduce plan with no source reads \<open>srcs[0]\<close> out of
  range.
\<close>

fun execute_plan :: "runtime \<Rightarrow> TransferPlan \<Rightarrow> Event \<Rightarrow> Event \<Rightarrow> int \<Rightarrow> error + execute_result" where
  "execute_plan rt (TransferPlanCopy oas_by_inst) ev wait_on priority =
     (case oas_by_inst of
        [] \<Rightarrow> Inl AssertFailed
      | (ip, v) # rest \<Rightarrow>
          let src_mem = get_location rt (fst ip);
              dst_mem = get_location rt (snd ip);
              (dma_node, lg) = select_dma_node rt src_mem dst_mem 0 False;
              r = CopyRequest oas_by_inst wait_on ev priority
          in Inr \<lparr>finish_event = ev, dispatched = dispatch_to rt dma_node ev r, logged = lg\<rparr>)"
| "execute_plan rt (TransferPlanReduce srcs dst redop_id red_fold) ev wait_on priority =
     (let inst_lock_needed = False;
          r = ReduceRequest srcs dst inst_lock_needed redop_id red_fold wait_on ev 0
      in case srcs of
           [] \<Rightarrow> Inl OutOfRange
         | s0 # rest \<Rightarrow>
             let src_node = instance_owner_node rt (inst s0)
             in Inr \<lparr>finish_event = ev, dispatched = dispatch_to rt src_node ev r, logged = []\<rparr>)"
| "execute_plan rt (TransferPlanFill data i ofs) ev wait_on priority =
     (let f = \<lparr>inst = i, offset = ofs, size = of_nat (length data), serdez_id = 0\<rparr>;
          r = FillRequest f data wait_on ev priority;
          tgt_node = instance_owner_node rt i
      in Inr \<lparr>finish_event = ev, dispatched = dispatch_to rt tgt_node ev r, logged = []\<rparr>)"

subsection \<open>Planning copies, reductions and fills\<close>

text \<open>
  The \<open>while\<close> loop of \<open>plan_copy\<close>: \<open>srcs\<close> and \<open>dsts\<close> are what is left from
  \<open>src_it\<close> and \<open>dst_it\<close> on, \<open>plans\<close> the vector being appended to. It returns what
  is left of both lists, the filled \<open>oas_by_mem\<close> and the plans.
\<close>

function copy_loop ::
  "runtime \<Rightarrow> CopySrcDstField list \<Rightarrow> CopySrcDstField list \<Rightarrow> unsigned \<Rightarrow> unsigned \<Rightarrow> OASByMem
   \<Rightarrow> TransferPlan list
   \<Rightarrow> error + (CopySrcDstField list \<times> CopySrcDstField list \<times> OASByMem \<times> TransferPlan list)" where
  "copy_loop rt [] dsts src_suboffset dst_suboffset oas_by_mem plans =
     Inr ([], dsts, oas_by_mem, plans)"
| "copy_loop rt (s # srcs) [] src_suboffset dst_suboffset oas_by_mem plans =
     Inr (s # srcs, [], oas_by_mem, plans)"
| "copy_loop rt (s # srcs) (d # dsts) src_suboffset dst_suboffset oas_by_mem plans =
     (let ip = (inst s, inst d);
          mp = (instance_impl_memory rt (inst s), instance_impl_memory rt (inst d));
          oas = \<lparr>src_offset = offset s + src_suboffset,
                 dst_offset = offset d + dst_suboffset,
                 oas_size = min (size s - src_suboffset) (size d - dst_suboffset),
                 oas_serdez_id = serdez_id s\<rparr>;
          plans' = (if oas_serdez_id oas \<noteq> 0
                    then plans @ [TransferPlanCopy (oas_by_inst_push ip oas [])] else plans);
          oas_by_mem' = (if oas_serdez_id oas \<noteq> 0
                         then oas_by_mem else oas_by_mem_push mp ip oas oas_by_mem);
          src_suboffset' = src_suboffset + oas_size oas;
          dst_suboffset' = dst_suboffset + oas_size oas
      in if \<not> src_suboffset' \<le> size s then Inl AssertFailed
         else if \<not> dst_suboffset' \<le> size d then Inl AssertFailed
         else copy_loop rt
                (if src_suboffset' = size s then srcs else s # srcs)
                (if dst_suboffset' = size d then dsts else d # dsts)
                (if src_suboffset' = size s then 0 else src_suboffset')
                (if dst_suboffset' = size d then 0 else dst_suboffset')
                oas_by_mem' plans')"
  by pat_completeness auto
termination
  by (relation "measure (\<lambda>(rt, srcs, dsts, r). length srcs + length dsts)")
     (auto simp: min_def split: if_splits)

text \<open>
  The loop after it: one plan for every instance pair of every memory pair, in map
  order.
\<close>

definition plans_of_oas_by_mem :: "OASByMem \<Rightarrow> TransferPlan list" where
  "plans_of_oas_by_mem oas_by_mem =
     concat (map (\<lambda>(mp, oas_by_inst). map (\<lambda>(ip, v). TransferPlanCopy [(ip, v)]) oas_by_inst)
                 oas_by_mem)"

text \<open>
  The sanity check of the reduction case: every source instance is owned by the node
  of the first one.
\<close>

definition all_sources_on_one_node :: "runtime \<Rightarrow> CopySrcDstField list \<Rightarrow> bool" where
  "all_sources_on_one_node rt srcs =
     list_all (\<lambda>s. instance_owner_node rt (inst s) = instance_owner_node rt (inst (hd srcs)))
              (tl srcs)"

text \<open>\<open>TransferPlan::plan_copy\<close>; the result is the vector \<open>plans\<close> after the call.\<close>

definition plan_copy ::
  "runtime \<Rightarrow> TransferPlan list \<Rightarrow> CopySrcDstField list \<Rightarrow> CopySrcDstField list
   \<Rightarrow> ReductionOpID \<Rightarrow> bool \<Rightarrow> error + TransferPlan list" where
  "plan_copy rt plans srcs dsts redop_id red_fold =
     (if redop_id = 0 then
        (case copy_loop rt srcs dsts 0 0 [] plans of
           Inl e \<Rightarrow> Inl e
         | Inr (srcs', dsts', oas_by_mem, plans') \<Rightarrow>
             if srcs' \<noteq> [] then Inl AssertFailed
             else if dsts' \<noteq> [] then Inl AssertFailed
             else Inr (plans' @ plans_of_oas_by_mem oas_by_mem))
      else
        (if \<not> all_sources_on_one_node rt srcs then Inl AssertFailed
         else (case dsts of
                 [d] \<Rightarrow> Inr (plans @ [TransferPlanReduce srcs d redop_id red_fold])
               | _ \<Rightarrow> Inl AssertFailed)))"

text \<open>
  \<open>TransferPlan::plan_fill\<close>: the loop over \<open>dsts\<close> with the running \<open>fill_ofs\<close>.
  The fill value is the byte list \<open>fill_value\<close>, and \<open>fill_value_size\<close> its length;
  \<open>fill_ofs\<close> is a \<open>size_t\<close> that stays within the fill value, and the field size
  is widened to it (\<open>unat\<close>).
\<close>

fun fill_loop ::
  "8 word list \<Rightarrow> CopySrcDstField list \<Rightarrow> nat \<Rightarrow> TransferPlan list \<Rightarrow> error + TransferPlan list" where
  "fill_loop fill_value [] fill_ofs plans = Inr plans"
| "fill_loop fill_value (d # dsts) fill_ofs plans =
     (if fill_ofs + unat (size d) > length fill_value then Inl FatalInsufficientFillData
      else
        let p = TransferPlanFill (take (unat (size d)) (drop fill_ofs fill_value)) (inst d) (offset d)
        in fill_loop fill_value dsts
             (if fill_ofs > 0 \<or> unat (size d) \<noteq> length fill_value
              then fill_ofs + unat (size d) else fill_ofs)
             (plans @ [p]))"

definition plan_fill ::
  "TransferPlan list \<Rightarrow> CopySrcDstField list \<Rightarrow> 8 word list \<Rightarrow> error + TransferPlan list" where
  "plan_fill plans dsts fill_value = fill_loop fill_value dsts 0 plans"

subsection \<open>Reference descriptions of the planner's output\<close>

text \<open>
  Where the fill data of the \<open>k\<close>-th destination field starts, in closed form: the
  sizes of the fields before it are added up, except for the leading fields that
  leave the offset at zero (a field as large as the whole fill value, or an empty
  one).
\<close>

definition fill_slice_start :: "nat \<Rightarrow> CopySrcDstField list \<Rightarrow> nat \<Rightarrow> nat" where
  "fill_slice_start fill_value_size dsts k =
     sum_list (map (\<lambda>d. unat (size d)) (dropWhile (\<lambda>d. unat (size d) = fill_value_size \<or> unat (size d) = 0) (take k dsts)))"

definition fill_plan_at :: "8 word list \<Rightarrow> CopySrcDstField list \<Rightarrow> nat \<Rightarrow> nat \<Rightarrow> TransferPlan" where
  "fill_plan_at fill_value dsts start k =
     TransferPlanFill (take (unat (size (dsts ! k))) (drop start fill_value))
                      (inst (dsts ! k)) (offset (dsts ! k))"

definition loop_start :: "nat \<Rightarrow> nat \<Rightarrow> CopySrcDstField list \<Rightarrow> nat \<Rightarrow> nat" where
  "loop_start fvs ofs ds k =
     (if ofs > 0 then ofs + sum_list (map (\<lambda>d. unat (size d)) (take k ds)) else fill_slice_start fvs ds k)"

text \<open>
  The walk of \<open>plan_copy\<close> over both field lists, as the description of the copy
  plan has it: the current source and destination field give one entry, as large as
  the smaller of what is left of the two fields, and whichever field is used up is
  left behind. The result is the entries in the order they are made, and what is left
  of both lists when one of them runs out. \<open>a\<close> and \<open>b\<close> are the bytes of the
  current source and destination field that earlier entries have covered; an entry
  starts at the field's offset plus these bytes, a sum of two \<open>unsigned\<close> that wraps
  around at \<open>2 ^ 32\<close>.
\<close>

definition walk_entry ::
  "CopySrcDstField \<Rightarrow> CopySrcDstField \<Rightarrow> unsigned \<Rightarrow> unsigned \<Rightarrow> InstPair \<times> OffsetsAndSize" where
  "walk_entry s d a b =
     ((inst s, inst d),
      \<lparr>src_offset = offset s + a, dst_offset = offset d + b,
       oas_size = min (size s - a) (size d - b), oas_serdez_id = serdez_id s\<rparr>)"

function walk_entries ::
  "CopySrcDstField list \<Rightarrow> CopySrcDstField list \<Rightarrow> unsigned \<Rightarrow> unsigned
   \<Rightarrow> (InstPair \<times> OffsetsAndSize) list \<times> CopySrcDstField list \<times> CopySrcDstField list" where
  "walk_entries [] dsts a b = ([], [], dsts)"
| "walk_entries (s # srcs) [] a b = ([], s # srcs, [])"
| "walk_entries (s # srcs) (d # dsts) a b =
     (let n = min (size s - a) (size d - b)
      in case walk_entries (if a + n = size s then srcs else s # srcs)
                           (if b + n = size d then dsts else d # dsts)
                           (if a + n = size s then 0 else a + n)
                           (if b + n = size d then 0 else b + n) of
           (es, sl, dl) \<Rightarrow> (walk_entry s d a b # es, sl, dl))"
  by pat_completeness auto
termination
  by (relation "measure (\<lambda>(srcs, dsts, r). length srcs + length dsts)")
     (auto simp: min_def split: if_splits)

definition mem_pair :: "runtime \<Rightarrow> InstPair \<Rightarrow> MemPair" where
  "mem_pair rt ip = (instance_impl_memory rt (fst ip), instance_impl_memory rt (snd ip))"

text \<open>The plans of the entries with a serdez identifier: one entry each.\<close>

definition serdez_plans :: "(InstPair \<times> OffsetsAndSize) list \<Rightarrow> TransferPlan list" where
  "serdez_plans es =
     map (\<lambda>e. TransferPlanCopy [(fst e, [snd e])]) (filter (\<lambda>e. oas_serdez_id (snd e) \<noteq> 0) es)"

text \<open>The entries without a serdez identifier of one instance pair, in walk order.\<close>

definition inst_entries :: "InstPair \<Rightarrow> (InstPair \<times> OffsetsAndSize) list \<Rightarrow> OASVec" where
  "inst_entries ip es =
     map snd (filter (\<lambda>e. fst e = ip \<and> oas_serdez_id (snd e) = 0) es)"

text \<open>
  The order of the grouped plans: by memory pair first, by instance pair within a
  memory pair.
\<close>

definition plan_key_less :: "runtime \<Rightarrow> InstPair \<Rightarrow> InstPair \<Rightarrow> bool" where
  "plan_key_less rt ip ip' =
     (pair_lt (mem_pair rt ip) (mem_pair rt ip')
      \<or> (mem_pair rt ip = mem_pair rt ip' \<and> pair_lt ip ip'))"

text \<open>
  The \<open>oas_by_mem\<close> that the loop has built once it has filed the entries \<open>zs\<close>.
\<close>

definition file_entries :: "runtime \<Rightarrow> (InstPair \<times> OffsetsAndSize) list \<Rightarrow> OASByMem \<Rightarrow> OASByMem" where
  "file_entries rt zs oas_by_mem =
     foldl (\<lambda>m e. oas_by_mem_push (mem_pair rt (fst e)) (fst e) (snd e) m) oas_by_mem zs"

definition walk_ok :: "CopySrcDstField list \<Rightarrow> CopySrcDstField list \<Rightarrow> unsigned \<Rightarrow> unsigned \<Rightarrow> bool" where
  "walk_ok srcs dsts a b =
     ((case srcs of [] \<Rightarrow> a = 0 | s # r \<Rightarrow> a \<le> size s) \<and>
      (case dsts of [] \<Rightarrow> b = 0 | d # r \<Rightarrow> b \<le> size d))"

definition oas_by_mem_inv :: "runtime \<Rightarrow> (InstPair \<times> OffsetsAndSize) list \<Rightarrow> OASByMem \<Rightarrow> bool" where
  "oas_by_mem_inv rt zs m =
     (sorted_wrt pair_lt (map fst m) \<and>
      (\<forall>mp oas_by_inst. map_of m mp = Some oas_by_inst \<longrightarrow>
           sorted_wrt pair_lt (map fst oas_by_inst)) \<and>
      (\<forall>mp ip. (case map_of m mp of None \<Rightarrow> None | Some oas_by_inst \<Rightarrow> map_of oas_by_inst ip)
                = (if mem_pair rt ip = mp \<and> inst_entries ip zs \<noteq> []
                   then Some (inst_entries ip zs) else None)))"

text \<open>The instance pairs of an \<open>oas_by_mem\<close>, in the order of its two loops.\<close>

definition group_keys :: "OASByMem \<Rightarrow> InstPair list" where
  "group_keys m = concat (map (\<lambda>g. map fst (snd g)) m)"

section \<open>Transfer iterators (runtime/realm/transfer/transfer.cc)\<close>

subsection \<open>Machine integers and address information\<close>

text \<open>
  \<open>size_t\<close> and \<open>coord_t\<close> (a \<open>long long\<close>) are 64-bit words: \<open>+\<close>, \<open>-\<close> and \<open>*\<close>
  wrap around and are the same for both; \<open>\<le>\<close>, \<open><\<close>, \<open>div\<close> and \<open>mod\<close> are the
  unsigned operations of \<open>size_t\<close>, and \<open>\<le>s\<close>, \<open><s\<close> and \<open>coord_sdiv\<close> the signed ones
  where both operands of the source are \<open>coord_t\<close>. Signed division truncates towards
  zero.
\<close>

type_synonym size_t = "64 word"
type_synonym coord_t = "64 word"

definition coord_sdiv :: "coord_t \<Rightarrow> coord_t \<Rightarrow> coord_t" where
  "coord_sdiv a b = word_of_int (sint a sdiv sint b)"

record AddressInfo =
  base_offset :: size_t
  bytes_per_chunk :: size_t
  num_lines :: size_t
  line_stride :: size_t
  num_planes :: size_t
  plane_stride :: size_t

text \<open>
  A \<open>Point<DIM>\<close> is the list of its \<open>DIM\<close> coordinates, a \<open>Rect<DIM>\<close> its two
  corners.
\<close>

type_synonym Point = "coord_t list"

record Rect =
  lo :: Point
  hi :: Point

subsection \<open>The iterator over a rectangle: \<open>TransferIteratorRect<DIM>\<close>\<close>

text \<open>
  What the iterator reaches through \<open>inst_impl\<close> (the instance metadata) and
  \<open>mapping\<close>, and the template parameter \<open>DIM\<close>. \<open>image_dense_subrect\<close> is the method of the linearization
  (it returns the image, a \<open>Rect<1>\<close> given by its two ends, and the subrectangle it
  covers), and \<open>volume\<close> is \<open>Rect<DIM>::volume\<close>; neither is defined in the
  iterator's file.
\<close>

record InstanceMetadata =
  block_size :: size_t
  elmt_size :: size_t
  alloc_offset :: size_t

record RectEnv = InstanceMetadata +
  DIM :: nat
  image_dense_subrect :: "Rect \<Rightarrow> (coord_t \<times> coord_t) \<times> Rect"
  volume :: "Rect \<Rightarrow> size_t"

text \<open>The members that all iterators share, and those of the rectangle iterator.\<close>

record IteratorBase =
  field_idx :: nat
  tentative_valid :: bool

record IteratorFields = IteratorBase +
  field_offsets :: "32 word list"
  field_sizes :: "size_t list"
  next_idx :: nat

record TransferIteratorRect = IteratorFields +
  iter_r :: Rect
  iter_p :: Point
  next_p :: Point

definition rect_done :: "TransferIteratorRect \<Rightarrow> bool" where
  "rect_done it = (field_idx it = length (field_offsets it))"

text \<open>
  The first loop of \<open>step\<close>: the upper corner of \<open>target_subrect\<close>, dimension by
  dimension. The state is \<open>grow\<close>, \<open>count\<close> and the corner built so far. The
  division by \<open>count\<close> traps when \<open>count\<close> has wrapped around to 0.
\<close>

fun grow_loop ::
  "Rect \<Rightarrow> Point \<Rightarrow> size_t \<Rightarrow> nat list \<Rightarrow> bool \<times> size_t \<times> Point
   \<Rightarrow> error + (bool \<times> size_t \<times> Point)" where
  "grow_loop r p max_elems [] st = Inr st"
| "grow_loop r p max_elems (d # ds) (grow, count, thi) =
     (if grow then
        (let len = hi r ! d - p ! d + 1
         in if count * len \<le> max_elems then
              grow_loop r p max_elems ds
                (if p ! d \<noteq> lo r ! d then False else grow, count * len, thi[d := hi r ! d])
            else if count = 0 then Inl DivisionByZero
            else
              (let actlen = max_elems div count
               in if \<not> 1 \<le> actlen then Inl AssertFailed
                  else grow_loop r p max_elems ds
                         (False, count * actlen, thi[d := p ! d + actlen - 1])))
      else grow_loop r p max_elems ds (grow, count, thi[d := p ! d]))"

definition target_subrect :: "RectEnv \<Rightarrow> Rect \<Rightarrow> Point \<Rightarrow> size_t \<Rightarrow> error + Rect" where
  "target_subrect env r p max_elems =
     (case grow_loop r p max_elems [0..<DIM env] (True, 1, replicate (DIM env) 0) of
        Inl e \<Rightarrow> Inl e
      | Inr (grow, count, thi) \<Rightarrow> Inr \<lparr>lo = p, hi = thi\<rparr>)"

text \<open>
  The loop that shortens \<open>act_subrect\<close> so that it stays within one block: the state
  is \<open>new_count\<close> and the upper corner. The last case shortens dimension \<open>d\<close>,
  collapses the dimensions after it and leaves the loop.
\<close>

fun shrink_loop ::
  "coord_t \<Rightarrow> Point \<Rightarrow> nat list \<Rightarrow> coord_t \<times> Point \<Rightarrow> error + (coord_t \<times> Point)" where
  "shrink_loop max_len alo [] st = Inr st"
| "shrink_loop max_len alo (d # ds) (new_count, ahi) =
     (if alo ! d = ahi ! d then shrink_loop max_len alo ds (new_count, ahi)
      else
        (let dim_len = ahi ! d - alo ! d + 1
         in if new_count * dim_len \<le>s max_len then
              shrink_loop max_len alo ds (new_count * dim_len, ahi)
            else if new_count = 0 then Inl DivisionByZero
            else
              (let new_len = coord_sdiv max_len new_count
               in if \<not> (0 <s new_len \<and> new_len <s dim_len) then Inl AssertFailed
                  else Inr (new_count * new_len,
                            fold (\<lambda>d' h. h[d' := alo ! d']) ds
                                 (ahi[d := alo ! d + new_len - 1])))))"

text \<open>
  The block arithmetic of \<open>step\<close>: \<open>first_block\<close>, \<open>block_ofs\<close>, and the count and
  upper corner of \<open>act_subrect\<close> after the shortening.
\<close>

definition block_split ::
  "RectEnv \<Rightarrow> coord_t \<times> coord_t \<Rightarrow> Rect \<Rightarrow> size_t
   \<Rightarrow> error + (coord_t \<times> coord_t \<times> size_t \<times> Point)" where
  "block_split env img act act_count =
     (if block_size env > snd img then Inr (0, fst img, act_count, hi act)
      else if block_size env = 0 then Inl DivisionByZero
      else
        (let first_block = fst img div block_size env;
             block_ofs = fst img - first_block * block_size env;
             last_block = snd img div block_size env
         in if first_block \<noteq> last_block then
              (let max_len = block_size env - fst img mod block_size env
               in if max_len <s hi act ! 0 - lo act ! 0 + 1 then
                    Inr (first_block, block_ofs, max_len,
                         (lo act)[0 := lo act ! 0 + max_len - 1])
                  else
                    (case shrink_loop max_len (lo act) [1..<DIM env]
                            (hi act ! 0 - lo act ! 0 + 1, hi act) of
                       Inl e \<Rightarrow> Inl e
                     | Inr (new_count, ahi) \<Rightarrow> Inr (first_block, block_ofs, new_count, ahi)))
            else Inr (first_block, block_ofs, act_count, hi act)))"

text \<open>
  The chunk that \<open>step\<close> hands out at point \<open>p\<close> for a field at \<open>field_offset\<close> of
  size \<open>field_size\<close>: the address information and \<open>act_subrect\<close>. It reads the
  rectangle, the point and the field, and nothing else of the iterator.
\<close>

definition rect_chunk ::
  "RectEnv \<Rightarrow> Rect \<Rightarrow> Point \<Rightarrow> 32 word \<Rightarrow> size_t \<Rightarrow> size_t \<Rightarrow> error + (AddressInfo \<times> Rect)" where
  "rect_chunk env r p field_offset field_size max_elems =
     (case target_subrect env r p max_elems of
        Inl e \<Rightarrow> Inl e
      | Inr target \<Rightarrow>
          (let (img, act) = image_dense_subrect env target;
               act_count = volume env act
           in case block_split env img act act_count of
                Inl e \<Rightarrow> Inl e
              | Inr (first_block, block_ofs, act_count', ahi) \<Rightarrow>
                  Inr (\<lparr>base_offset = alloc_offset env
                                        + first_block * block_size env * elmt_size env
                                        + ucast field_offset * block_size env
                                        + block_ofs * field_size,
                        bytes_per_chunk = act_count' * field_size,
                        num_lines = 1, line_stride = 0, num_planes = 1, plane_stride = 0\<rparr>,
                       \<lparr>lo = lo act, hi = ahi\<rparr>)))"

text \<open>The loop that sets \<open>next_p\<close>; the state is \<open>carry\<close> and \<open>next_p\<close>.\<close>

fun carry_loop :: "Rect \<Rightarrow> Rect \<Rightarrow> nat list \<Rightarrow> bool \<times> Point \<Rightarrow> bool \<times> Point" where
  "carry_loop r act [] st = st"
| "carry_loop r act (d # ds) (carry, np) =
     (if carry then
        (if hi act ! d = hi r ! d then carry_loop r act ds (carry, np[d := lo r ! d])
         else carry_loop r act ds (False, np[d := hi act ! d + 1]))
      else carry_loop r act ds (carry, np[d := lo act ! d]))"

text \<open>
  \<open>TransferIteratorRect<DIM>::step\<close>. The result is the returned byte count, the
  address information when \<open>info\<close> has been written, and the iterator afterwards.
  A field of size 0 makes the first division trap.
\<close>

definition rect_step ::
  "RectEnv \<Rightarrow> size_t \<Rightarrow> bool \<Rightarrow> TransferIteratorRect
   \<Rightarrow> error + (size_t \<times> AddressInfo option \<times> TransferIteratorRect)" where
  "rect_step env max_bytes tentative it =
     (if rect_done it then Inl AssertFailed
      else if tentative_valid it then Inl AssertFailed
      else if \<not> (field_idx it < length (field_sizes it) \<and> field_idx it < length (field_offsets it))
      then Inl OutOfRange
      else if field_sizes it ! field_idx it = 0 then Inl DivisionByZero
      else
        (let max_elems = max_bytes div field_sizes it ! field_idx it
         in if max_elems = 0 then Inr (0, None, it)
            else
              (case rect_chunk env (iter_r it) (iter_p it) (field_offsets it ! field_idx it)
                               (field_sizes it ! field_idx it) max_elems of
                 Inl e \<Rightarrow> Inl e
               | Inr (info, act) \<Rightarrow>
                   (let (carry, np) = carry_loop (iter_r it) act [0..<DIM env] (True, next_p it);
                        it' = it\<lparr>next_p := np,
                                 next_idx := field_idx it + (if carry then 1 else 0)\<rparr>
                    in if tentative
                       then Inr (bytes_per_chunk info, Some info, it'\<lparr>tentative_valid := True\<rparr>)
                       else Inr (bytes_per_chunk info, Some info,
                                 it'\<lparr>iter_p := next_p it', field_idx := next_idx it'\<rparr>)))))"

definition rect_confirm_step :: "TransferIteratorRect \<Rightarrow> error + TransferIteratorRect" where
  "rect_confirm_step it =
     (if \<not> tentative_valid it then Inl AssertFailed
      else Inr (it\<lparr>iter_p := next_p it, field_idx := next_idx it, tentative_valid := False\<rparr>))"


subsection \<open>The iterator over an unstructured index space: \<open>TransferIteratorIndexSpace\<close>\<close>

text \<open>
  What the iterator reaches outside its own file: the index space implementation
  (whether its valid mask has arrived, and the mask), the element mask's
  \<open>find_enabled\<close> and \<open>enumerate_enabled\<close>, the enumerator's \<open>get_next\<close> (its
  result, the span, and the enumerator afterwards), \<open>peek_next\<close> (which leaves the
  enumerator as it is) and \<open>set_pos\<close>, the one-dimensional linearization, and the
  instance metadata. The mask and the enumerator are of types \<open>'m\<close> and \<open>'e\<close>.
\<close>

record ('m, 'e) IndexSpaceEnv = InstanceMetadata +
  valid_mask_ready :: bool
  impl_valid_mask :: "'m option"
  find_enabled :: "'m \<Rightarrow> coord_t"
  enumerate_enabled :: "'m \<Rightarrow> coord_t \<Rightarrow> 'e"
  get_next :: "'e \<Rightarrow> bool \<times> coord_t \<times> size_t \<times> 'e"
  peek_next :: "'e \<Rightarrow> (coord_t \<times> size_t) option"
  set_pos :: "'e \<Rightarrow> coord_t \<Rightarrow> 'e"
  image_dense_subrect1 :: "coord_t \<times> coord_t \<Rightarrow> (coord_t \<times> coord_t) \<times> (coord_t \<times> coord_t)"

record ('m, 'e) TransferIteratorIndexSpace = IteratorFields +
  valid_mask :: "'m option"
  first_enabled :: coord_t
  enumerator :: "'e option"
  rewind_pos :: coord_t
  extra_elems :: size_t

definition index_space_done :: "('m, 'e) TransferIteratorIndexSpace \<Rightarrow> bool" where
  "index_space_done it = (field_idx it = length (field_offsets it))"

text \<open>
  The head of \<open>step\<close>: the valid mask is fetched when the iterator has fields and no
  mask yet. The flag of the result says that \<open>step\<close> returns 0 at once, the index
  space being empty.
\<close>

definition fetch_valid_mask ::
  "('m, 'e) IndexSpaceEnv \<Rightarrow> ('m, 'e) TransferIteratorIndexSpace
   \<Rightarrow> error + (bool \<times> ('m, 'e) TransferIteratorIndexSpace)" where
  "fetch_valid_mask env it =
     (if field_sizes it \<noteq> [] \<and> valid_mask it = None then
        (if \<not> valid_mask_ready env then Inl AssertFailed
         else case impl_valid_mask env of
                None \<Rightarrow> Inl AssertFailed
              | Some m \<Rightarrow>
                  (let it1 = it\<lparr>valid_mask := Some m, first_enabled := find_enabled env m\<rparr>
                   in if first_enabled it1 = - 1
                      then Inr (True, it1\<lparr>field_idx := 0, field_offsets := [], field_sizes := []\<rparr>)
                      else Inr (False, it1)))
      else Inr (False, it))"

text \<open>
  The \<open>while(1)\<close> loop that looks at the next span and merges it into the current
  one. It has no bound of its own, so not returning is the value \<open>None\<close>.
\<close>

partial_function (option) peek_loop ::
  "('m, 'e) IndexSpaceEnv \<Rightarrow> 'e \<Rightarrow> coord_t \<Rightarrow> size_t \<Rightarrow> size_t \<Rightarrow> size_t
   \<Rightarrow> (size_t \<times> bool) option" where
  "peek_loop env e span_start extra max_elems span_len =
     (case peek_next env e of
        None \<Rightarrow> Some (span_len, True)
      | Some (peek_start, peek_len) \<Rightarrow>
          if peek_start - (span_start + span_len) \<le> extra
             \<and> peek_start + peek_len - span_start \<le> max_elems
          then peek_loop env e span_start extra max_elems ((peek_start - span_start) + peek_len)
          else Some (span_len, False))"

declare peek_loop.simps [code]

text \<open>
  The span that \<open>step\<close> takes from the enumerator \<open>e\<close>: where it starts, its length,
  whether it is the last one, and the enumerator afterwards.
\<close>

definition take_span ::
  "('m, 'e) IndexSpaceEnv \<Rightarrow> 'e \<Rightarrow> size_t \<Rightarrow> size_t
   \<Rightarrow> error + (coord_t \<times> size_t \<times> bool \<times> 'e)" where
  "take_span env e extra max_elems =
     (case get_next env e of
        (ok, span_start, span_len, e1) \<Rightarrow>
          if \<not> ok then Inl AssertFailed
          else if span_len > max_elems
          then Inr (span_start, max_elems, False, set_pos env e1 (span_start + max_elems))
          else (case peek_loop env e1 span_start extra max_elems span_len of
                  None \<Rightarrow> Inl Diverges
                | Some (span_len', last_span) \<Rightarrow> Inr (span_start, span_len', last_span, e1)))"

text \<open>
  The block arithmetic for a span: \<open>first_block\<close>, \<open>block_ofs\<close>, and the span length,
  the \<open>last_span\<close> flag and the enumerator after the span has been cut at the end of its
  first block.
\<close>

definition span_block ::
  "('m, 'e) IndexSpaceEnv \<Rightarrow> coord_t \<times> coord_t \<Rightarrow> size_t \<Rightarrow> bool \<Rightarrow> 'e
   \<Rightarrow> error + (coord_t \<times> coord_t \<times> size_t \<times> bool \<times> 'e)" where
  "span_block env img span_len last_span e =
     (if block_size env > snd img then Inr (0, fst img, span_len, last_span, e)
      else if block_size env = 0 then Inl DivisionByZero
      else
        (let first_block = fst img div block_size env;
             block_ofs = fst img - first_block * block_size env;
             last_block = snd img div block_size env
         in if first_block \<noteq> last_block then
              (let span_len' = block_size env - fst img mod block_size env
               in Inr (first_block, block_ofs, span_len', False,
                       set_pos env e (fst img + span_len')))
            else Inr (first_block, block_ofs, span_len, last_span, e)))"

text \<open>
  The enumerator that \<open>step\<close> works with: the one the iterator has, or a new one
  from the valid mask.
\<close>

definition step_enumerator ::
  "('m, 'e) IndexSpaceEnv \<Rightarrow> ('m, 'e) TransferIteratorIndexSpace \<Rightarrow> error + 'e" where
  "step_enumerator env it =
     (case enumerator it of
        Some e \<Rightarrow> Inr e
      | None \<Rightarrow> (case valid_mask it of
                   None \<Rightarrow> Inl NullPointer
                 | Some m \<Rightarrow> Inr (enumerate_enabled env m (first_enabled it))))"

text \<open>
  The part of \<open>step\<close> after the span has been taken: mapping the span, the block
  arithmetic, the address information and the change of the iterator.
\<close>

definition index_space_emit ::
  "('m, 'e) IndexSpaceEnv \<Rightarrow> bool \<Rightarrow> ('m, 'e) TransferIteratorIndexSpace
   \<Rightarrow> coord_t \<times> size_t \<times> bool \<times> 'e
   \<Rightarrow> error + (size_t \<times> AddressInfo option \<times> ('m, 'e) TransferIteratorIndexSpace)" where
  "index_space_emit env tentative it span =
     (case span of
        (span_start, span_len, last_span, e1) \<Rightarrow>
          (let target = (span_start, span_start + span_len - 1);
               mapped = image_dense_subrect1 env target
           in if snd mapped \<noteq> target then Inl AssertFailed
              else
                (case span_block env (fst mapped) span_len last_span e1 of
                   Inl err \<Rightarrow> Inl err
                 | Inr (first_block, block_ofs, span_len', last_span', e2) \<Rightarrow>
                     (let info =
                            \<lparr>base_offset = alloc_offset env
                               + first_block * block_size env * elmt_size env
                               + ucast (field_offsets it ! field_idx it) * block_size env
                               + block_ofs * field_sizes it ! field_idx it,
                             bytes_per_chunk = span_len' * field_sizes it ! field_idx it,
                             num_lines = 1, line_stride = 0,
                             num_planes = 1, plane_stride = 0\<rparr>;
                          it1 = it\<lparr>enumerator := Some e2, rewind_pos := span_start\<rparr>
                      in if tentative then
                           Inr (bytes_per_chunk info, Some info,
                                it1\<lparr>tentative_valid := True,
                                    next_idx := field_idx it + (if last_span' then 1 else 0)\<rparr>)
                         else if last_span' then
                           Inr (bytes_per_chunk info, Some info,
                                it1\<lparr>enumerator := None, field_idx := field_idx it + 1\<rparr>)
                         else Inr (bytes_per_chunk info, Some info, it1)))))"

text \<open>\<open>TransferIteratorIndexSpace::step\<close>.\<close>

definition index_space_step ::
  "('m, 'e) IndexSpaceEnv \<Rightarrow> size_t \<Rightarrow> bool \<Rightarrow> ('m, 'e) TransferIteratorIndexSpace
   \<Rightarrow> error + (size_t \<times> AddressInfo option \<times> ('m, 'e) TransferIteratorIndexSpace)" where
  "index_space_step env max_bytes tentative it0 =
     (case fetch_valid_mask env it0 of
        Inl err \<Rightarrow> Inl err
      | Inr (space_empty, it) \<Rightarrow>
          if space_empty then Inr (0, None, it)
          else if index_space_done it then Inl AssertFailed
          else if tentative_valid it then Inl AssertFailed
          else if \<not> (field_idx it < length (field_sizes it) \<and> field_idx it < length (field_offsets it))
          then Inl OutOfRange
          else if field_sizes it ! field_idx it = 0 then Inl DivisionByZero
          else
            (let max_elems = max_bytes div field_sizes it ! field_idx it
             in if max_elems = 0 then Inr (0, None, it)
                else
                  (case step_enumerator env it of
                     Inl err \<Rightarrow> Inl err
                   | Inr e \<Rightarrow>
                       (case take_span env e (extra_elems it) max_elems of
                          Inl err \<Rightarrow> Inl err
                        | Inr span \<Rightarrow> index_space_emit env tentative it span))))"

definition index_space_confirm_step ::
  "('m, 'e) TransferIteratorIndexSpace \<Rightarrow> error + ('m, 'e) TransferIteratorIndexSpace" where
  "index_space_confirm_step it =
     (if \<not> tentative_valid it then Inl AssertFailed
      else if next_idx it \<noteq> field_idx it
      then Inr (it\<lparr>enumerator := None, field_idx := next_idx it, tentative_valid := False\<rparr>)
      else Inr (it\<lparr>tentative_valid := False\<rparr>))"


subsection \<open>The iterator over a sparse index space: \<open>TransferIteratorZIndexSpace<N,T>\<close>\<close>

text \<open>
  The layout of a field in the instance, and a piece of the layout. Only affine
  pieces are supported by the iterator. \<open>rel_offset\<close> is an \<open>int\<close> in the source
  and is held here as the \<open>size_t\<close> it is converted to when it is added to the base
  offset.
\<close>

record FieldLayout =
  list_idx :: nat
  rel_offset :: size_t
  size_in_bytes :: size_t

datatype LayoutPiece =
    AffineLayoutPiece (strides: "size_t list") (bounds: Rect) (piece_offset: size_t)
  | OtherLayoutPiece

text \<open>
  What the iterator reaches outside its own file: the template parameter \<open>N\<close>, the
  instance layout (the field table and \<open>find_piece\<close> of a piece list), the offset
  of the instance, and the \<open>ZIndexSpaceIterator\<close> held in \<open>iter\<close> (of type \<open>'i\<close>),
  with its members \<open>valid\<close> and \<open>rect\<close> and its methods \<open>step\<close> (result and
  iterator afterwards) and \<open>reset\<close>.
\<close>

record 'i ZIndexSpaceEnv =
  zdim :: nat
  layout_fields :: "nat \<Rightarrow> FieldLayout option"
  find_piece :: "nat \<Rightarrow> Point \<Rightarrow> LayoutPiece option"
  inst_offset :: size_t
  iter_valid :: "'i \<Rightarrow> bool"
  iter_rect :: "'i \<Rightarrow> Rect"
  iter_step :: "'i \<Rightarrow> bool \<times> 'i"
  iter_reset :: "'i \<Rightarrow> 'i"

record 'i TransferIteratorZIndexSpace = IteratorBase +
  iter :: 'i
  cur_point :: Point
  next_point :: Point
  carry :: bool
  iter_fields :: "nat list"
  z_extra_elems :: size_t

definition z_done :: "'i TransferIteratorZIndexSpace \<Rightarrow> bool" where
  "z_done it = (field_idx it = length (iter_fields it))"

text \<open>\<open>strides.dot(cur_point)\<close>: the sum of the products of the coordinates.\<close>

definition dot :: "size_t list \<Rightarrow> Point \<Rightarrow> size_t" where
  "dot a b = sum_list (map2 (*) a b)"

text \<open>
  The loop over the dimensions of an affine piece: the state is \<open>grow\<close>,
  \<open>exp_stride\<close>, \<open>cur_bytes\<close> and the upper corner of the target. The division by
  \<open>cur_bytes\<close> traps when it has wrapped around to 0.
\<close>

fun affine_loop ::
  "size_t list \<Rightarrow> Rect \<Rightarrow> Rect \<Rightarrow> Point \<Rightarrow> size_t \<Rightarrow> nat list
   \<Rightarrow> bool \<times> size_t \<times> size_t \<times> Point \<Rightarrow> error + (bool \<times> size_t \<times> size_t \<times> Point)" where
  "affine_loop strd bnds rect cur max_bytes [] st = Inr st"
| "affine_loop strd bnds rect cur max_bytes (d # ds) (grow, exp_stride, cur_bytes, thi) =
     (if grow then
        (if strd ! d = exp_stride then
           (let len0 = hi rect ! d - cur ! d + 1;
                exp_stride' = exp_stride * len0;
                piece_limit = hi bnds ! d - cur ! d + 1;
                len1 = (if piece_limit < len0 then piece_limit else len0);
                grow1 = (if piece_limit < len0 then False else grow)
            in if cur_bytes = 0 then Inl DivisionByZero
               else
                 (let byte_limit = max_bytes div cur_bytes;
                      len2 = (if byte_limit < len1 then byte_limit else len1);
                      grow2 = (if byte_limit < len1 then False else grow1)
                  in affine_loop strd bnds rect cur max_bytes ds
                       (grow2, exp_stride', cur_bytes * len2, thi[d := cur ! d + len2 - 1])))
         else affine_loop strd bnds rect cur max_bytes ds
                (False, exp_stride, cur_bytes * 1, thi[d := cur ! d + 1 - 1]))
      else affine_loop strd bnds rect cur max_bytes ds
             (grow, exp_stride, cur_bytes, thi[d := cur ! d]))"

text \<open>The loop that sets \<open>next_point\<close> from the target and the rectangle of \<open>iter\<close>.\<close>

fun z_carry_loop :: "Rect \<Rightarrow> Rect \<Rightarrow> nat list \<Rightarrow> bool \<times> Point \<Rightarrow> bool \<times> Point" where
  "z_carry_loop rect target [] st = st"
| "z_carry_loop rect target (d # ds) (cy, np) =
     (if cy then
        (if hi target ! d = hi rect ! d then z_carry_loop rect target ds (cy, np[d := lo rect ! d])
         else z_carry_loop rect target ds (False, np[d := hi target ! d + 1]))
      else z_carry_loop rect target ds (cy, np[d := lo target ! d]))"

text \<open>
  The move to the next point, done by a step that is not tentative and by
  \<open>confirm_step\<close>.
\<close>

definition z_advance ::
  "'i ZIndexSpaceEnv \<Rightarrow> 'i TransferIteratorZIndexSpace \<Rightarrow> 'i TransferIteratorZIndexSpace" where
  "z_advance env it =
     (if carry it then
        (case iter_step env (iter it) of
           (stepped, i') \<Rightarrow>
             if stepped then it\<lparr>iter := i', cur_point := lo (iter_rect env i')\<rparr>
             else it\<lparr>field_idx := field_idx it + 1, iter := iter_reset env i'\<rparr>)
      else it\<lparr>cur_point := next_point it\<rparr>)"

text \<open>
  The chunk of an affine piece at the current point: the address information and the
  target subrectangle.
\<close>

definition z_chunk ::
  "'i ZIndexSpaceEnv \<Rightarrow> Rect \<Rightarrow> Point \<Rightarrow> LayoutPiece \<Rightarrow> size_t \<Rightarrow> size_t \<Rightarrow> size_t
   \<Rightarrow> error + (AddressInfo \<times> Rect)" where
  "z_chunk env rect cur piece field_rel_offset field_size max_bytes =
     (case piece of
        OtherLayoutPiece \<Rightarrow> Inl AssertFailed
      | AffineLayoutPiece strd bnds ofs \<Rightarrow>
          (case affine_loop strd bnds rect cur max_bytes [0..<zdim env]
                  (True, field_size, field_size, replicate (zdim env) 0) of
             Inl err \<Rightarrow> Inl err
           | Inr (grow, exp_stride, cur_bytes, thi) \<Rightarrow>
               Inr (\<lparr>base_offset = inst_offset env + ofs + dot strd cur + field_rel_offset,
                     bytes_per_chunk = cur_bytes,
                     num_lines = 1, line_stride = 0, num_planes = 1, plane_stride = 0\<rparr>,
                    \<lparr>lo = cur, hi = thi\<rparr>)))"

text \<open>\<open>TransferIteratorZIndexSpace<N,T>::step\<close>.\<close>

definition z_step ::
  "'i ZIndexSpaceEnv \<Rightarrow> size_t \<Rightarrow> bool \<Rightarrow> 'i TransferIteratorZIndexSpace
   \<Rightarrow> error + (size_t \<times> AddressInfo option \<times> 'i TransferIteratorZIndexSpace)" where
  "z_step env max_bytes tentative it =
     (if z_done it then Inl AssertFailed
      else if tentative_valid it then Inl AssertFailed
      else if \<not> iter_valid env (iter it) then Inl AssertFailed
      else if \<not> field_idx it < length (iter_fields it) then Inl OutOfRange
      else
        (case layout_fields env (iter_fields it ! field_idx it) of
           None \<Rightarrow> Inl AssertFailed
         | Some fl \<Rightarrow>
             (case find_piece env (list_idx fl) (cur_point it) of
                None \<Rightarrow> Inl AssertFailed
              | Some piece \<Rightarrow>
                  if size_in_bytes fl = 0 then Inl DivisionByZero
                  else if max_bytes div size_in_bytes fl = 0 then Inr (0, None, it)
                  else
                    (case z_chunk env (iter_rect env (iter it)) (cur_point it) piece
                            (rel_offset fl) (size_in_bytes fl) max_bytes of
                       Inl err \<Rightarrow> Inl err
                     | Inr (info, target) \<Rightarrow>
                         (case z_carry_loop (iter_rect env (iter it)) target [0..<zdim env]
                                 (True, next_point it) of
                            (cy, np) \<Rightarrow>
                              (let it1 = it\<lparr>carry := cy, next_point := np\<rparr>
                               in if tentative
                                  then Inr (bytes_per_chunk info, Some info, it1\<lparr>tentative_valid := True\<rparr>)
                                  else Inr (bytes_per_chunk info, Some info, z_advance env it1)))))))"

definition z_confirm_step ::
  "'i ZIndexSpaceEnv \<Rightarrow> 'i TransferIteratorZIndexSpace \<Rightarrow> error + 'i TransferIteratorZIndexSpace" where
  "z_confirm_step env it =
     (if \<not> tentative_valid it then Inl AssertFailed
      else Inr ((z_advance env it)\<lparr>tentative_valid := False\<rparr>))"


subsection \<open>What the caller of a step sees\<close>


section \<open>GPU processor (runtime/lowlevel_gpu.cc)\<close>

subsection \<open>The CUDA driver\<close>

text \<open>
  Contexts, streams, device functions and modules are the handles the driver hands
  out, host addresses are numbers. The driver is not part of the runtime: of each
  call the model keeps that it was made, with the arguments that matter below, in the
  order of the calls (\<open>cu_trace\<close>), and takes from a parameter whether the call
  succeeds, given the calls made before it. \<open>cuMemHostRegister\<close> is always called with
  the flag \<open>CU_MEMHOSTREGISTER_PORTABLE\<close>; the launch configuration and the arguments
  of a kernel are left out.
\<close>

type_synonym CUcontext = nat
type_synonym CUstream = nat
type_synonym CUfunction = nat
type_synonym CUmodule_handle = nat
type_synonym proc_ptr = nat
type_synonym task_ptr = nat
type_synonym job_ptr = nat
type_synonym thread_ptr = nat

datatype stream_callback =
    GPUTask_handle_start job_ptr
  | GPUTask_handle_finish job_ptr
  | GPUMemcpy_handle_finish job_ptr

datatype cu_call =
    CuCtxPushCurrent CUcontext
  | CuCtxPopCurrent
  | CuMemHostRegister nat size_t
  | CuCtxEnablePeerAccess CUcontext nat
  | CuStreamAddCallback CUstream stream_callback
  | CuLaunchKernel CUfunction CUstream
  | CuCtxSynchronize
  | CuModuleUnload CUmodule_handle

subsection \<open>Tasks, jobs, processors and the heap\<close>

text \<open>
  A \<open>Task\<close>: the members that the GPU processor reads and writes. \<open>perform_capture\<close>
  is the result of \<open>perform_capture()\<close>, \<open>started\<close> and \<open>completed\<close> record the calls
  of \<open>mark_started()\<close> and \<open>mark_completed()\<close>. An event exists when it is not
  \<open>NO_EVENT\<close>, the event with id 0.
\<close>

record Task =
  func_id :: nat
  run_count :: int
  finish_count :: int
  task_finish_event :: Event
  perform_capture :: bool
  started :: bool
  completed :: bool


text \<open>
  A \<open>GPUJob\<close> is a \<open>GPUTask\<close> (its processor, its task, the stream set by
  \<open>set_local_stream\<close> and the modules set by \<open>record_modules\<close>) or a \<open>GPUMemcpy\<close> (its
  processor and its finish event).
\<close>

datatype GPUJob =
    GPUTask proc_ptr task_ptr CUstream "CUmodule_handle list"
  | GPUMemcpy proc_ptr Event

text \<open>
  The members of a \<open>GPUProcessor\<close> that the functions below use. \<open>gpu_worker\<close> says
  whether the pointer to the worker is set. The task queue is the list of its tasks in
  the order \<open>pop\<close> returns them; the sets of modules are lists in iteration order.
\<close>

record GPUProcessor =
  proc_ctx :: CUcontext
  shutdown :: bool
  shutdown_trigger :: bool
  gpu_worker :: bool
  peer_gpus :: "proc_ptr set"
  task_streams :: "CUstream list"
  current_stream :: nat
  task_queue :: "task_ptr list"
  copies :: "job_ptr list"
  complete_jobs :: "job_ptr list"
  task_modules :: "CUmodule_handle list"
  modules :: "CUmodule_handle list"
  running_thread :: "thread_ptr option"
  available_threads :: "thread_ptr list"
  resumable_threads :: "thread_ptr list"

text \<open>
  The objects that the processors share, each kind in a store from addresses to
  values; \<open>next_job\<close> is the address that the next \<open>new GPUTask\<close> returns. The worker
  keeps its \<open>complete_jobs\<close>, a \<open>std::map\<close> from processors to queues, as a list in
  the order of the processors' addresses. \<open>triggered\<close> lists the events that have been
  triggered, in order.
\<close>

record world =
  procs :: "proc_ptr \<Rightarrow> GPUProcessor option"
  tasks :: "task_ptr \<Rightarrow> Task option"
  jobs :: "job_ptr \<Rightarrow> GPUJob option"
  next_job :: job_ptr
  cu_trace :: "cu_call list"
  triggered :: "Event list"
  worker_complete_jobs :: "(proc_ptr \<times> job_ptr list) list"
  worker_jobs_empty :: bool

text \<open>
  What comes from outside the file: the driver (\<open>cu_result\<close> says whether a call
  succeeds after the calls made so far, \<open>cu_popped\<close> is the context that
  \<open>cuCtxPopCurrent\<close> stores), the task table (of a task function the model keeps the
  kernels it launches through \<open>internal_launch\<close>, in order), and what
  \<open>create_new_thread\<close> and \<open>LocalProcessor::finished\<close> do.
\<close>

record gpu_env =
  cu_result :: "cu_call list \<Rightarrow> cu_call \<Rightarrow> bool"
  cu_popped :: "cu_call list \<Rightarrow> CUcontext"
  task_table :: "nat \<Rightarrow> CUfunction list"
  create_new_thread :: "GPUProcessor \<Rightarrow> thread_ptr"
  finished :: "GPUProcessor \<Rightarrow> GPUProcessor"

text \<open>Sequencing of steps that may fail, and access to a processor through its pointer.\<close>

definition then_do :: "error + 'a \<Rightarrow> ('a \<Rightarrow> error + 'b) \<Rightarrow> error + 'b" where
  "then_do r f = (case r of Inl e \<Rightarrow> Inl e | Inr x \<Rightarrow> f x)"

definition with_proc :: "world \<Rightarrow> proc_ptr \<Rightarrow> (GPUProcessor \<Rightarrow> error + 'a) \<Rightarrow> error + 'a" where
  "with_proc w p f = (case procs w p of None \<Rightarrow> Inl NullPointer | Some P \<Rightarrow> f P)"

definition set_proc :: "proc_ptr \<Rightarrow> GPUProcessor \<Rightarrow> world \<Rightarrow> world" where
  "set_proc p P w = w\<lparr>procs := (procs w)(p \<mapsto> P)\<rparr>"

text \<open>
  A driver call: it is added to the trace. Under \<open>CHECK_CU\<close> a result other than
  \<open>CUDA_SUCCESS\<close> aborts the process.
\<close>

definition cu_call_made :: "cu_call \<Rightarrow> world \<Rightarrow> world" where
  "cu_call_made c w = w\<lparr>cu_trace := cu_trace w @ [c]\<rparr>"

definition CHECK_CU :: "gpu_env \<Rightarrow> cu_call \<Rightarrow> world \<Rightarrow> error + world" where
  "CHECK_CU env c w =
     (if cu_result env (cu_trace w) c then Inr (cu_call_made c w) else Inl DriverError)"

text \<open>
  \<open>cuCtxPopCurrent(&proc_ctx)\<close>: the driver stores the context it has popped in
  \<open>proc_ctx\<close>.
\<close>

definition store_popped :: "gpu_env \<Rightarrow> proc_ptr \<Rightarrow> cu_call list \<Rightarrow> world \<Rightarrow> error + world" where
  "store_popped env this before w =
     with_proc w this (\<lambda>P. Inr (set_proc this (P\<lparr>proc_ctx := cu_popped env before\<rparr>) w))"

definition pop_current_checked :: "gpu_env \<Rightarrow> proc_ptr \<Rightarrow> world \<Rightarrow> error + world" where
  "pop_current_checked env this w =
     then_do (CHECK_CU env CuCtxPopCurrent w) (store_popped env this (cu_trace w))"


subsection \<open>Host memory and peer access\<close>

text \<open>\<open>GPUProcessor::register_host_memory\<close>\<close>

definition register_host_memory ::
  "gpu_env \<Rightarrow> proc_ptr \<Rightarrow> nat \<Rightarrow> size_t \<Rightarrow> world \<Rightarrow> error + world" where
  "register_host_memory env this base sz w =
     with_proc w this (\<lambda>P.
       if \<not> shutdown P then
         then_do (CHECK_CU env (CuCtxPushCurrent (proc_ctx P)) w) (\<lambda>w1.
         then_do (CHECK_CU env (CuMemHostRegister base sz) w1) (\<lambda>w2.
         pop_current_checked env this w2))
       else Inr w)"

text \<open>\<open>GPUProcessor::handle_peer_access\<close>\<close>

definition handle_peer_access :: "gpu_env \<Rightarrow> proc_ptr \<Rightarrow> CUcontext \<Rightarrow> world \<Rightarrow> error + world" where
  "handle_peer_access env this peer_ctx w =
     with_proc w this (\<lambda>P.
       then_do (CHECK_CU env (CuCtxPushCurrent (proc_ctx P)) w) (\<lambda>w1.
       then_do (CHECK_CU env (CuCtxEnablePeerAccess peer_ctx 0) w1) (\<lambda>w2.
       pop_current_checked env this w2)))"

text \<open>
  \<open>GPUProcessor::enable_peer_access\<close>: the peer is told to enable the access, and
  then the peer is put into the \<open>peer_gpus\<close> of this processor.
\<close>

definition enable_peer_access :: "gpu_env \<Rightarrow> proc_ptr \<Rightarrow> proc_ptr \<Rightarrow> world \<Rightarrow> error + world" where
  "enable_peer_access env this peer w =
     with_proc w this (\<lambda>P.
       then_do (handle_peer_access env peer (proc_ctx P) w) (\<lambda>w1.
       with_proc w1 this (\<lambda>P1.
         Inr (set_proc this (P1\<lparr>peer_gpus := insert peer (peer_gpus P1)\<rparr>) w1))))"

text \<open>\<open>GPUProcessor::can_access_peer\<close>\<close>

definition can_access_peer :: "world \<Rightarrow> proc_ptr \<Rightarrow> proc_ptr \<Rightarrow> error + bool" where
  "can_access_peer w this peer = with_proc w this (\<lambda>P. Inr (peer \<in> peer_gpus P))"

subsection \<open>Running a task on a task stream\<close>
















text \<open>
  The callbacks \<open>GPUTask::handle_start\<close> and \<open>GPUTask::handle_finish\<close>, called by the
  driver with the job as \<open>data\<close> when the stream reaches them.
\<close>

definition GPUTask_handle_start_fn :: "job_ptr \<Rightarrow> world \<Rightarrow> error + world" where
  "GPUTask_handle_start_fn job w =
     (case jobs w job of
        Some (GPUTask g t local_stream ms) \<Rightarrow>
          (case tasks w t of
             None \<Rightarrow> Inl NullPointer
           | Some T \<Rightarrow> Inr (w\<lparr>tasks := (tasks w)(t \<mapsto> T\<lparr>started := True\<rparr>)\<rparr>))
      | _ \<Rightarrow> Inl NullPointer)"


subsection \<open>The loop body of a GPU thread: \<open>GPUProcessor::execute_gpu\<close>\<close>






section \<open>Example inputs\<close>

text \<open>
  A machine of several nodes: memory \<open>m\<close> lives on node \<open>m div 10\<close>, instance \<open>i\<close>
  in memory \<open>i div 10\<close> and on node \<open>i div 100\<close>; the memories with an even id are
  the RDMA-global ones. The local node is node 0.
\<close>

definition example_runtime :: runtime where
  "example_runtime =
     \<lparr>gasnet_mynode = 0,
      memory_owner_node = (\<lambda>m. m div 10),
      instance_owner_node = (\<lambda>i. i div 100),
      memory_impl_kind = (\<lambda>m. if even m then MKIND_GLOBAL else MKIND_SYSMEM),
      get_location = (\<lambda>i. i div 10),
      instance_impl_memory = (\<lambda>i. i div 10)\<rparr>"

definition example_field :: "RegionInstance \<Rightarrow> unsigned \<Rightarrow> unsigned \<Rightarrow> nat \<Rightarrow> CopySrcDstField" where
  "example_field i ofs sz sd = \<lparr>inst = i, offset = ofs, size = sz, serdez_id = sd\<rparr>"

definition example_fill_dsts :: "CopySrcDstField list" where
  "example_fill_dsts = [example_field 5 0 4 0, example_field 5 4 4 0, example_field 6 0 2 0, example_field 6 2 2 0]"

definition example_copy_srcs :: "CopySrcDstField list" where
  "example_copy_srcs = [example_field 120 0 4 0, example_field 121 0 4 0, example_field 130 16 6 9]"

definition example_copy_dsts :: "CopySrcDstField list" where
  "example_copy_dsts = [example_field 250 0 8 0, example_field 250 8 2 0, example_field 251 0 4 0]"

text \<open>
  A source field of 8 bytes at the last offset an \<open>unsigned\<close> holds, copied to two
  fields of 4 bytes: the second entry starts past the wrap-around.
\<close>

definition example_wrap_srcs :: "CopySrcDstField list" where
  "example_wrap_srcs = [example_field 120 4294967295 8 0]"

definition example_wrap_dsts :: "CopySrcDstField list" where
  "example_wrap_dsts = [example_field 250 0 4 0, example_field 250 4 4 0]"

text \<open>
  A three-dimensional rectangle of 10 by 10 by 10 points in an instance that is one
  block (structure of arrays), linearized with the first dimension fastest, and an
  iterator over two fields of 4 and 8 bytes standing at the point (0, 3, 0).
\<close>

definition example_linearize :: "Point \<Rightarrow> coord_t" where
  "example_linearize pt = pt ! 0 + 10 * pt ! 1 + 100 * pt ! 2"

definition example_volume :: "Rect \<Rightarrow> size_t" where
  "example_volume rc = fold (\<lambda>(l, h) v. v * (h - l + 1)) (zip (lo rc) (hi rc)) 1"

definition example_rect_env :: RectEnv where
  "example_rect_env =
     \<lparr>block_size = 1000, elmt_size = 12, alloc_offset = 64, DIM = 3,
      image_dense_subrect = (\<lambda>rc. ((example_linearize (lo rc), example_linearize (hi rc)), rc)),
      volume = example_volume\<rparr>"

definition example_rect :: Rect where
  "example_rect = \<lparr>lo = [0, 0, 0], hi = [9, 9, 9]\<rparr>"

definition example_rect_iter :: TransferIteratorRect where
  "example_rect_iter =
     \<lparr>field_idx = 0, tentative_valid = False, field_offsets = [0, 4], field_sizes = [4, 8],
      next_idx = 0, iter_r = example_rect, iter_p = [0, 3, 0], next_p = [0, 0, 0]\<rparr>"

text \<open>
  An unstructured index space given by a list of flags, with an enumerator that is the
  position it has reached: \<open>get_next\<close> skips the disabled elements and returns the
  run of enabled ones that follows.
\<close>

definition example_next_span :: "bool list \<Rightarrow> nat \<Rightarrow> nat \<times> nat" where
  "example_next_span flags pos =
     (let start = pos + length (takeWhile Not (drop pos flags))
      in (start, length (takeWhile id (drop start flags))))"

definition example_index_space_env :: "bool list \<Rightarrow> (bool list, nat) IndexSpaceEnv" where
  "example_index_space_env flags =
     \<lparr>block_size = 1000, elmt_size = 12, alloc_offset = 64,
      valid_mask_ready = True,
      impl_valid_mask = Some flags,
      find_enabled = (\<lambda>m. if True \<in> set m then of_nat (length (takeWhile Not m)) else - 1),
      enumerate_enabled = (\<lambda>m first. unat first),
      get_next = (\<lambda>pos. case example_next_span flags pos of
                            (start, len) \<Rightarrow> (0 < len, of_nat start, of_nat len, start + len)),
      peek_next = (\<lambda>pos. case example_next_span flags pos of
                             (start, len) \<Rightarrow> if 0 < len then Some (of_nat start, of_nat len) else None),
      set_pos = (\<lambda>pos c. unat c),
      image_dense_subrect1 = (\<lambda>rc. (rc, rc))\<rparr>"

definition example_mask :: "bool list" where
  "example_mask = [False, False, True, True, True, False, True, True]"

definition example_index_space_iter :: "(bool list, nat) TransferIteratorIndexSpace" where
  "example_index_space_iter =
     \<lparr>field_idx = 0, tentative_valid = False, field_offsets = [0, 4], field_sizes = [4, 8],
      next_idx = 0, valid_mask = Some example_mask, first_enabled = 2, enumerator = None,
      rewind_pos = 0, extra_elems = 0\<rparr>"


text \<open>
  A sparse index space of two rectangles in two dimensions; the \<open>ZIndexSpaceIterator\<close>
  is the list of rectangles and the index of the current one. Field 7 is 4 bytes
  wide and lies in one affine piece covering 10 by 10 points.
\<close>

definition example_z_env :: "(Rect list \<times> nat) ZIndexSpaceEnv" where
  "example_z_env =
     \<lparr>zdim = 2,
      layout_fields = (\<lambda>f. if f = 7 then Some \<lparr>list_idx = 0, rel_offset = 0, size_in_bytes = 4\<rparr>
                           else None),
      find_piece = (\<lambda>l pt. Some (AffineLayoutPiece [4, 40] \<lparr>lo = [0, 0], hi = [9, 9]\<rparr> 0)),
      inst_offset = 64,
      iter_valid = (\<lambda>i. snd i < length (fst i)),
      iter_rect = (\<lambda>i. fst i ! snd i),
      iter_step = (\<lambda>i. (Suc (snd i) < length (fst i), (fst i, Suc (snd i)))),
      iter_reset = (\<lambda>i. (fst i, 0))\<rparr>"

definition example_z_iter :: "(Rect list \<times> nat) TransferIteratorZIndexSpace" where
  "example_z_iter =
     \<lparr>field_idx = 0, tentative_valid = False,
      iter = ([\<lparr>lo = [0, 0], hi = [9, 1]\<rparr>, \<lparr>lo = [4, 5], hi = [6, 5]\<rparr>], 0),
      cur_point = [0, 0], next_point = [0, 0], carry = False, iter_fields = [7],
      z_extra_elems = 0\<rparr>"

text \<open>
  Two GPU processors at the addresses 1 and 2, each with three task streams and its
  own context, no worker, and thread 7 running. The driver accepts every call and
  keeps the contexts pushed in a stack. Task 5 runs task function 3, which launches
  the kernels 30 and 31, and has the finish event 42.
\<close>

fun example_ctx_stack :: "cu_call list \<Rightarrow> CUcontext list \<Rightarrow> CUcontext list" where
  "example_ctx_stack [] st = st"
| "example_ctx_stack (CuCtxPushCurrent c # cs) st = example_ctx_stack cs (c # st)"
| "example_ctx_stack (CuCtxPopCurrent # cs) st = example_ctx_stack cs (tl st)"
| "example_ctx_stack (c # cs) st = example_ctx_stack cs st"

definition example_gpu_env :: gpu_env where
  "example_gpu_env =
     \<lparr>cu_result = (\<lambda>made c. True),
      cu_popped = (\<lambda>made. case example_ctx_stack made [] of [] \<Rightarrow> 0 | c # st \<Rightarrow> c),
      task_table = (\<lambda>f. if f = 3 then [30, 31] else []),
      create_new_thread = (\<lambda>P. 8),
      finished = (\<lambda>P. P\<lparr>shutdown := True\<rparr>)\<rparr>"

text \<open>A driver that refuses to register a region of host memory a second time.\<close>

definition example_strict_env :: gpu_env where
  "example_strict_env =
     example_gpu_env\<lparr>cu_result := (\<lambda>made c. case c of CuMemHostRegister b s \<Rightarrow> c \<notin> set made
                                                 | _ \<Rightarrow> True)\<rparr>"

definition example_gpu :: "nat \<Rightarrow> GPUProcessor" where
  "example_gpu i =
     \<lparr>proc_ctx = 100 + i, shutdown = False, shutdown_trigger = False, gpu_worker = False,
      peer_gpus = {}, task_streams = [10 * i, 10 * i + 1, 10 * i + 2], current_stream = 0,
      task_queue = [], copies = [], complete_jobs = [], task_modules = [], modules = [],
      running_thread = Some 7, available_threads = [], resumable_threads = []\<rparr>"

definition example_task :: Task where
  "example_task =
     \<lparr>func_id = 3, run_count = 0, finish_count = 2, task_finish_event = 42,
      perform_capture = False, started = False, completed = False\<rparr>"

definition example_world :: world where
  "example_world =
     \<lparr>procs = (\<lambda>p. if p = 1 \<or> p = 2 then Some (example_gpu p) else None),
      tasks = (\<lambda>t. if t = 5 then Some example_task else None),
      jobs = (\<lambda>j. None), next_job = 1000, cu_trace = [], triggered = [],
      worker_complete_jobs = [], worker_jobs_empty = True\<rparr>"




section \<open>Properties of the transfer planner\<close>

subsection \<open>Node selection\<close>

text \<open>
  C1. A copy plan is executed on the node that \<open>select_dma_node\<close> picks from the
  kinds of the memories of the plan's first instance pair: with both memories
  RDMA-global (\<open>MKIND_GLOBAL\<close>) the local node, and a warning is logged; with only
  the source RDMA-global the owner node of the destination memory; in every other
  case the owner node of the source memory.
\<close>

theorem copy_plan_node_selection:
  assumes "oas_by_inst = (ip, v) # rest"
      and "src_mem = get_location rt (fst ip)"
      and "dst_mem = get_location rt (snd ip)"
      and "r = CopyRequest oas_by_inst wait_on ev priority"
  shows "(memory_impl_kind rt src_mem = MKIND_GLOBAL \<and> memory_impl_kind rt dst_mem = MKIND_GLOBAL \<longrightarrow>
            select_dma_node rt src_mem dst_mem 0 False
              = (gasnet_mynode rt, [Warning_gasnet_to_gasnet (gasnet_mynode rt)]) \<and>
            execute_plan rt (TransferPlanCopy oas_by_inst) ev wait_on priority
              = Inr \<lparr>finish_event = ev, dispatched = LocalOperation ev r,
                     logged = [Warning_gasnet_to_gasnet (gasnet_mynode rt)]\<rparr>)
       \<and> (memory_impl_kind rt src_mem = MKIND_GLOBAL \<and> memory_impl_kind rt dst_mem \<noteq> MKIND_GLOBAL \<longrightarrow>
            select_dma_node rt src_mem dst_mem 0 False = (memory_owner_node rt dst_mem, []) \<and>
            execute_plan rt (TransferPlanCopy oas_by_inst) ev wait_on priority
              = Inr \<lparr>finish_event = ev,
                     dispatched = dispatch_to rt (memory_owner_node rt dst_mem) ev r, logged = []\<rparr>)
       \<and> (memory_impl_kind rt src_mem \<noteq> MKIND_GLOBAL \<longrightarrow>
            select_dma_node rt src_mem dst_mem 0 False = (memory_owner_node rt src_mem, []) \<and>
            execute_plan rt (TransferPlanCopy oas_by_inst) ev wait_on priority
              = Inr \<lparr>finish_event = ev,
                     dispatched = dispatch_to rt (memory_owner_node rt src_mem) ev r, logged = []\<rparr>)"
  using assms by (simp add: select_dma_node_def dispatch_to_def)

theorem copy_plan_node_selection_witness:
  "execute_plan example_runtime (TransferPlanCopy [((120, 240), [])]) 7 3 0
     = Inr \<lparr>finish_event = 7,
            dispatched = LocalOperation 7 (CopyRequest [((120, 240), [])] 3 7 0),
            logged = [Warning_gasnet_to_gasnet 0]\<rparr>
   \<and> execute_plan example_runtime (TransferPlanCopy [((120, 250), [])]) 7 3 0
     = Inr \<lparr>finish_event = 7,
            dispatched = RemoteOperation 7 2 (CopyRequest [((120, 250), [])] 3 7 0),
            logged = []\<rparr>
   \<and> execute_plan example_runtime (TransferPlanCopy [((130, 240), [])]) 7 3 0
     = Inr \<lparr>finish_event = 7,
            dispatched = RemoteOperation 7 1 (CopyRequest [((130, 240), [])] 3 7 0),
            logged = []\<rparr>
   \<and> execute_plan example_runtime (TransferPlanCopy [((130, 250), [])]) 7 3 0
     = Inr \<lparr>finish_event = 7,
            dispatched = RemoteOperation 7 1 (CopyRequest [((130, 250), [])] 3 7 0),
            logged = []\<rparr>"
  using copy_plan_node_selection [OF refl refl refl refl, of example_runtime "(120, 240)" "[]" "[]" 7 3 0]
        copy_plan_node_selection [OF refl refl refl refl, of example_runtime "(120, 250)" "[]" "[]" 7 3 0]
        copy_plan_node_selection [OF refl refl refl refl, of example_runtime "(130, 240)" "[]" "[]" 7 3 0]
        copy_plan_node_selection [OF refl refl refl refl, of example_runtime "(130, 250)" "[]" "[]" 7 3 0]
  by (simp add: example_runtime_def dispatch_to_def)

subsection \<open>Fill plans\<close>

lemma loop_start_0: "loop_start fvs ofs ds 0 = ofs"
  by (simp add: loop_start_def fill_slice_start_def)

lemma loop_start_Suc:
  "loop_start fvs ofs (d # ds) (Suc k) =
     loop_start fvs (if ofs > 0 \<or> unat (size d) \<noteq> fvs then ofs + unat (size d) else ofs) ds k"
  by (simp add: loop_start_def fill_slice_start_def)

lemma ex_less_Suc: "(\<exists>k<Suc n. Q k) \<longleftrightarrow> Q 0 \<or> (\<exists>k<n. Q (Suc k))"
  by (metis less_Suc_eq_0_disj)

lemma map_upt_shift: "map f [0..<Suc n] = f 0 # map (\<lambda>k. f (Suc k)) [0..<n]"
  by (simp add: upt_conv_Cons map_Suc_upt [symmetric] del: upt_Suc)

lemma fill_loop_char:
  "fill_loop fv ds ofs plans =
     (if \<exists>k<length ds. loop_start (length fv) ofs ds k + unat (size (ds ! k)) > length fv
      then Inl FatalInsufficientFillData
      else Inr (plans @ map (\<lambda>k. fill_plan_at fv ds (loop_start (length fv) ofs ds k) k)
                            [0..<length ds]))"
proof (induction ds arbitrary: ofs plans)
  case Nil
  then show ?case by simp
next
  case (Cons d ds)
  let ?ofs' = "if ofs > 0 \<or> unat (size d) \<noteq> length fv then ofs + unat (size d) else ofs"
  show ?case
  proof (cases "ofs + unat (size d) > length fv")
    case True
    then have "\<exists>k<length (d # ds). loop_start (length fv) ofs (d # ds) k + unat (size ((d # ds) ! k)) > length fv"
      by (intro exI [of _ 0]) (simp add: loop_start_0)
    with True show ?thesis by simp
  next
    case False
    have step: "fill_loop fv (d # ds) ofs plans =
                fill_loop fv ds ?ofs' (plans @ [fill_plan_at fv (d # ds) ofs 0])"
      using False by (simp add: fill_plan_at_def)
    have ex: "(\<exists>k<length (d # ds). loop_start (length fv) ofs (d # ds) k + unat (size ((d # ds) ! k)) > length fv)
              \<longleftrightarrow> (\<exists>k<length ds. loop_start (length fv) ?ofs' ds k + unat (size (ds ! k)) > length fv)"
      using False
      by (simp only: list.size add_Suc_right add_0_right ex_less_Suc loop_start_0 loop_start_Suc nth_Cons_0 nth_Cons_Suc)
         simp
    have mp: "map (\<lambda>k. fill_plan_at fv (d # ds) (loop_start (length fv) ofs (d # ds) k) k)
                  [0..<length (d # ds)]
              = fill_plan_at fv (d # ds) ofs 0
                # map (\<lambda>k. fill_plan_at fv ds (loop_start (length fv) ?ofs' ds k) k) [0..<length ds]"
      by (simp only: list.size add_Suc_right add_0_right map_upt_shift loop_start_0 loop_start_Suc)
         (simp add: fill_plan_at_def)
    show ?thesis
      unfolding step Cons.IH ex mp by simp
  qed
qed

lemma fill_slice_start_zero_iff:
  "fill_slice_start fvs ds k = 0 \<longleftrightarrow> (\<forall>d \<in> set (take k ds). unat (size d) = fvs \<or> unat (size d) = 0)"
proof -
  have "sum_list (map (\<lambda>d. unat (size d)) (dropWhile (\<lambda>d. unat (size d) = fvs \<or> unat (size d) = 0) xs)) = 0
        \<longleftrightarrow> (\<forall>d \<in> set xs. unat (size d) = fvs \<or> unat (size d) = 0)" for xs :: "CopySrcDstField list"
    by (induction xs) auto
  then show ?thesis by (simp add: fill_slice_start_def)
qed

lemma fill_slice_start_Suc:
  assumes "k < length ds"
  shows "fill_slice_start fvs ds (Suc k) =
           (if fill_slice_start fvs ds k = 0 \<and> unat (size (ds ! k)) = fvs then 0
            else fill_slice_start fvs ds k + unat (size (ds ! k)))"
proof (cases "\<forall>d \<in> set (take k ds). unat (size d) = fvs \<or> unat (size d) = 0")
  case True
  then have z: "fill_slice_start fvs ds k = 0"
    by (simp add: fill_slice_start_zero_iff)
  from True have "dropWhile (\<lambda>d. unat (size d) = fvs \<or> unat (size d) = 0) (take k ds @ [ds ! k])
                  = dropWhile (\<lambda>d. unat (size d) = fvs \<or> unat (size d) = 0) [ds ! k]"
    by (intro dropWhile_append2) auto
  with assms have e: "fill_slice_start fvs ds (Suc k)
      = sum_list (map (\<lambda>d. unat (size d)) (dropWhile (\<lambda>d. unat (size d) = fvs \<or> unat (size d) = 0) [ds ! k]))"
    by (simp only: fill_slice_start_def take_Suc_conv_app_nth)
  show ?thesis
    unfolding e z by simp
next
  case False
  then have nz: "fill_slice_start fvs ds k \<noteq> 0"
    by (simp add: fill_slice_start_zero_iff)
  from False obtain x where "x \<in> set (take k ds)" "\<not> (unat (size x) = fvs \<or> unat (size x) = 0)"
    by auto
  then have "dropWhile (\<lambda>d. unat (size d) = fvs \<or> unat (size d) = 0) (take k ds @ [ds ! k])
             = dropWhile (\<lambda>d. unat (size d) = fvs \<or> unat (size d) = 0) (take k ds) @ [ds ! k]"
    by (intro dropWhile_append1)
  with assms have e: "fill_slice_start fvs ds (Suc k) = fill_slice_start fvs ds k + unat (size (ds ! k))"
    by (simp only: fill_slice_start_def take_Suc_conv_app_nth) simp
  show ?thesis
    unfolding e using nz by simp
qed

text \<open>
  C10. \<open>plan_fill\<close> gives the \<open>k\<close>-th destination field the bytes of the fill value
  from \<open>fill_slice_start\<close> on, and fails fatally when a field reaches past the end of
  the fill value. The start is 0 for the first field; it is not advanced past a field
  when it is still 0 and the field is as large as the whole fill value, and is
  advanced by the field's size in every other case. So when the first field takes the
  whole fill value, the second field reads from offset 0 again.
\<close>

theorem plan_fill_offsets:
  "plan_fill plans dsts fill_value =
     (if \<exists>k<length dsts. fill_slice_start (length fill_value) dsts k + unat (size (dsts ! k))
                            > length fill_value
      then Inl FatalInsufficientFillData
      else Inr (plans @ map (\<lambda>k. fill_plan_at fill_value dsts
                                    (fill_slice_start (length fill_value) dsts k) k)
                            [0..<length dsts]))
   \<and> fill_slice_start (length fill_value) dsts 0 = 0
   \<and> (\<forall>k<length dsts.
        fill_slice_start (length fill_value) dsts (Suc k) =
          (if fill_slice_start (length fill_value) dsts k = 0 \<and> unat (size (dsts ! k)) = length fill_value
           then 0
           else fill_slice_start (length fill_value) dsts k + unat (size (dsts ! k))))
   \<and> (1 < length dsts \<and> unat (size (dsts ! 0)) = length fill_value \<longrightarrow>
        fill_slice_start (length fill_value) dsts 1 = 0)"
proof -
  have "loop_start (length fill_value) 0 dsts k = fill_slice_start (length fill_value) dsts k" for k
    by (simp add: loop_start_def)
  then have a: "plan_fill plans dsts fill_value =
     (if \<exists>k<length dsts. fill_slice_start (length fill_value) dsts k + unat (size (dsts ! k))
                            > length fill_value
      then Inl FatalInsufficientFillData
      else Inr (plans @ map (\<lambda>k. fill_plan_at fill_value dsts
                                    (fill_slice_start (length fill_value) dsts k) k)
                            [0..<length dsts]))"
    by (simp add: plan_fill_def fill_loop_char)
  have b: "fill_slice_start (length fill_value) dsts 0 = 0"
    by (simp add: fill_slice_start_def)
  have c: "\<forall>k<length dsts.
        fill_slice_start (length fill_value) dsts (Suc k) =
          (if fill_slice_start (length fill_value) dsts k = 0 \<and> unat (size (dsts ! k)) = length fill_value
           then 0
           else fill_slice_start (length fill_value) dsts k + unat (size (dsts ! k)))"
    by (simp add: fill_slice_start_Suc)
  have d: "1 < length dsts \<and> unat (size (dsts ! 0)) = length fill_value \<longrightarrow>
        fill_slice_start (length fill_value) dsts 1 = 0"
  proof
    assume h: "1 < length dsts \<and> unat (size (dsts ! 0)) = length fill_value"
    then have "0 < length dsts" by (cases dsts) simp_all
    with c have "fill_slice_start (length fill_value) dsts (Suc 0) =
          (if fill_slice_start (length fill_value) dsts 0 = 0 \<and> unat (size (dsts ! 0)) = length fill_value
           then 0
           else fill_slice_start (length fill_value) dsts 0 + unat (size (dsts ! 0)))"
      by simp
    with b h show "fill_slice_start (length fill_value) dsts 1 = 0" by simp
  qed
  show ?thesis
    by (rule conjI [OF a conjI [OF b conjI [OF c d]]])
qed

theorem plan_fill_offsets_witness:
  "plan_fill [] example_fill_dsts [1, 2, 3, 4]
     = Inr [TransferPlanFill [1, 2, 3, 4] 5 0, TransferPlanFill [1, 2, 3, 4] 5 4,
            TransferPlanFill [1, 2] 6 0, TransferPlanFill [3, 4] 6 2]
   \<and> fill_slice_start 4 example_fill_dsts 1 = 0
   \<and> fill_slice_start 4 example_fill_dsts 2 = 0
   \<and> fill_slice_start 4 example_fill_dsts 3 = 2
   \<and> plan_fill [] (example_fill_dsts @ [example_field 6 4 1 0]) [1, 2, 3, 4] = Inl FatalInsufficientFillData"
  using plan_fill_offsets [of "[]" example_fill_dsts "[1, 2, 3, 4]"]
  by (simp add: example_fill_dsts_def example_field_def plan_fill_def fill_slice_start_def)

subsection \<open>Reduce plans\<close>

text \<open>
  C3. A \<open>plan_copy\<close> call with a reduction operator (\<open>redop_id\<close> not 0) checks that
  every source instance is owned by the node of the first one and that there is
  exactly one destination field, and fails its assertion otherwise. When the checks
  pass it appends exactly one reduce plan, made of the sources, the destination field,
  the reduction operator and the fold flag; executing that plan hands the reduce
  request (same operator and fold flag) to the owner node of the first source
  instance, locally when that is the local node and forwarded to it otherwise.
\<close>

theorem plan_copy_reduction:
  assumes "redop_id \<noteq> 0"
  shows "(all_sources_on_one_node rt srcs \<and> length dsts = 1 \<longrightarrow>
            plan_copy rt plans srcs dsts redop_id red_fold
              = Inr (plans @ [TransferPlanReduce srcs (hd dsts) redop_id red_fold]) \<and>
            (srcs \<noteq> [] \<longrightarrow>
               execute_plan rt (TransferPlanReduce srcs (hd dsts) redop_id red_fold) ev wait_on priority
                 = Inr \<lparr>finish_event = ev,
                        dispatched = dispatch_to rt (instance_owner_node rt (inst (hd srcs))) ev
                                       (ReduceRequest srcs (hd dsts) False redop_id red_fold wait_on ev 0),
                        logged = []\<rparr>))
       \<and> (\<not> (all_sources_on_one_node rt srcs \<and> length dsts = 1) \<longrightarrow>
            plan_copy rt plans srcs dsts redop_id red_fold = Inl AssertFailed)"
proof -
  have one: "length dsts = 1 \<longleftrightarrow> (\<exists>d. dsts = [d])"
    by (cases dsts) auto
  show ?thesis
    using assms
    by (cases dsts; cases "tl dsts"; cases srcs)
       (auto simp: plan_copy_def one split: list.splits)
qed

theorem plan_copy_reduction_witness:
  "plan_copy example_runtime [] [example_field 120 0 8 0, example_field 130 0 8 0]
                                [example_field 250 0 8 0] 3 True
     = Inr [TransferPlanReduce [example_field 120 0 8 0, example_field 130 0 8 0]
                               (example_field 250 0 8 0) 3 True]
   \<and> execute_plan example_runtime
        (TransferPlanReduce [example_field 120 0 8 0, example_field 130 0 8 0]
                            (example_field 250 0 8 0) 3 True) 7 3 5
     = Inr \<lparr>finish_event = 7,
            dispatched = RemoteOperation 7 1
              (ReduceRequest [example_field 120 0 8 0, example_field 130 0 8 0]
                             (example_field 250 0 8 0) False 3 True 3 7 0),
            logged = []\<rparr>
   \<and> plan_copy example_runtime [] [example_field 120 0 8 0, example_field 230 0 8 0]
                                  [example_field 250 0 8 0] 3 True = Inl AssertFailed
   \<and> plan_copy example_runtime [] [example_field 120 0 8 0]
                                  [example_field 250 0 4 0, example_field 250 4 4 0] 3 True
       = Inl AssertFailed"
  using plan_copy_reduction [of 3 example_runtime "[example_field 120 0 8 0, example_field 130 0 8 0]"
                                "[example_field 250 0 8 0]" "[]" True 7 3 5]
        plan_copy_reduction [of 3 example_runtime "[example_field 120 0 8 0, example_field 230 0 8 0]"
                                "[example_field 250 0 8 0]" "[]" True 7 3 5]
        plan_copy_reduction [of 3 example_runtime "[example_field 120 0 8 0]"
                                "[example_field 250 0 4 0, example_field 250 4 4 0]" "[]" True 7 3 5]
  by (simp add: all_sources_on_one_node_def example_runtime_def example_field_def dispatch_to_def)

subsection \<open>Copy plans\<close>

lemma pair_lt_irrefl: "\<not> pair_lt a a"
  by (simp add: pair_lt_def)

lemma pair_lt_trans: "pair_lt a b \<Longrightarrow> pair_lt b c \<Longrightarrow> pair_lt a c"
  by (auto simp: pair_lt_def)

lemma pair_lt_asym: "pair_lt a b \<Longrightarrow> \<not> pair_lt b a"
  by (auto simp: pair_lt_def)

lemma sorted_pair_lt_distinct: "sorted_wrt pair_lt ks \<Longrightarrow> distinct ks"
  by (induction ks) (auto simp: pair_lt_irrefl)

lemma std_map_update_keys:
  "set (map fst (std_map_update k f m)) = insert k (set (map fst m))"
  by (induction k f m rule: std_map_update.induct) auto

lemma std_map_update_sorted:
  "sorted_wrt pair_lt (map fst m) \<Longrightarrow> sorted_wrt pair_lt (map fst (std_map_update k f m))"
proof (induction m)
  case Nil
  then show ?case by simp
next
  case (Cons kv m)
  obtain k' v where kv: "kv = (k', v)" by (cases kv)
  have tri: "k' \<noteq> k \<Longrightarrow> \<not> pair_lt k k' \<Longrightarrow> pair_lt k' k"
    by (cases k; cases k') (auto simp: pair_lt_def)
  have keys: "set (map fst (std_map_update k f m)) = insert k (set (map fst m))"
    by (rule std_map_update_keys)
  show ?case
  proof (cases "k' = k")
    case True
    with Cons.prems kv show ?thesis by simp
  next
    case neq: False
    show ?thesis
    proof (cases "pair_lt k k'")
      case True
      with Cons.prems kv neq show ?thesis
        by (auto intro: pair_lt_trans)
    next
      case False
      from Cons.prems kv have "sorted_wrt pair_lt (map fst m)" by simp
      then have ih: "sorted_wrt pair_lt (map fst (std_map_update k f m))"
        by (rule Cons.IH)
      from Cons.prems kv have "\<forall>x \<in> set (map fst m). pair_lt k' x" by simp
      with tri [OF neq False] keys
      have "\<forall>x \<in> set (map fst (std_map_update k f m)). pair_lt k' x"
        by simp
      with ih kv neq False show ?thesis by simp
    qed
  qed
qed

lemma std_map_update_map_of:
  "sorted_wrt pair_lt (map fst m) \<Longrightarrow>
   map_of (std_map_update k f m) = (map_of m)(k \<mapsto> f (map_of m k))"
proof (induction m)
  case Nil
  then show ?case by simp
next
  case (Cons kv m)
  obtain k' v where kv: "kv = (k', v)" by (cases kv)
  show ?case
  proof (cases "k' = k")
    case True
    with kv show ?thesis by (simp add: fun_eq_iff)
  next
    case neq: False
    show ?thesis
    proof (cases "pair_lt k k'")
      case True
      from Cons.prems kv have "\<forall>x \<in> set (map fst m). pair_lt k' x" by simp
      with True have "\<forall>x \<in> set (map fst m). pair_lt k x"
        by (auto intro: pair_lt_trans)
      then have "k \<notin> set (map fst m)"
        using pair_lt_irrefl by auto
      then have "map_of m k = None"
        by (simp add: map_of_eq_None_iff)
      with kv neq True show ?thesis by (simp add: fun_eq_iff)
    next
      case False
      from Cons.prems kv have "sorted_wrt pair_lt (map fst m)" by simp
      then have "map_of (std_map_update k f m) = (map_of m)(k \<mapsto> f (map_of m k))"
        by (rule Cons.IH)
      with kv neq False show ?thesis by (intro ext) simp
    qed
  qed
qed


lemma oas_by_mem_inv_empty: "oas_by_mem_inv rt [] []"
  by (simp add: oas_by_mem_inv_def inst_entries_def)

lemma inst_entries_snoc:
  "inst_entries ip (es @ [e]) =
     inst_entries ip es @ (if fst e = ip \<and> oas_serdez_id (snd e) = 0 then [snd e] else [])"
  by (simp add: inst_entries_def)

lemma oas_by_mem_inv_serdez:
  assumes "oas_serdez_id (snd e) \<noteq> 0" and "oas_by_mem_inv rt es m"
  shows "oas_by_mem_inv rt (es @ [e]) m"
  using assms by (simp add: oas_by_mem_inv_def inst_entries_snoc)

lemma oas_by_mem_inv_push:
  assumes z: "oas_serdez_id (snd e) = 0" and inv: "oas_by_mem_inv rt es m"
  shows "oas_by_mem_inv rt (es @ [e]) (oas_by_mem_push (mem_pair rt (fst e)) (fst e) (snd e) m)"
proof -
  define ip0 where "ip0 = fst e"
  define mp0 where "mp0 = mem_pair rt ip0"
  define obi0 where "obi0 = (case map_of m mp0 of None \<Rightarrow> [] | Some x \<Rightarrow> x)"
  define obi' where "obi' = oas_by_inst_push ip0 (snd e) obi0"
  define m' where "m' = oas_by_mem_push mp0 ip0 (snd e) m"
  from inv have s1: "sorted_wrt pair_lt (map fst m)"
    and s2: "\<And>mp x. map_of m mp = Some x \<Longrightarrow> sorted_wrt pair_lt (map fst x)"
    and s3: "\<And>mp ip. (case map_of m mp of None \<Rightarrow> None | Some x \<Rightarrow> map_of x ip)
                = (if mem_pair rt ip = mp \<and> inst_entries ip es \<noteq> []
                   then Some (inst_entries ip es) else None)"
    by (simp_all add: oas_by_mem_inv_def del: split_paired_All)
  have sorted0: "sorted_wrt pair_lt (map fst obi0)"
    using s2 [where mp = mp0] by (cases "map_of m mp0") (simp_all add: obi0_def)
  have look0: "map_of obi0 ip = (if mem_pair rt ip = mp0 \<and> inst_entries ip es \<noteq> []
                                 then Some (inst_entries ip es) else None)" for ip
    using s3 [where mp = mp0 and ip = ip] by (cases "map_of m mp0") (simp_all add: obi0_def)
  have mapm: "map_of m' = (map_of m)(mp0 \<mapsto> obi')"
    unfolding m'_def oas_by_mem_push_def obi'_def obi0_def
    by (rule std_map_update_map_of [OF s1])
  have mapo: "map_of obi' = (map_of obi0)(ip0 \<mapsto> inst_entries ip0 es @ [snd e])"
  proof -
    have "map_of obi' = (map_of obi0)(ip0 \<mapsto>
            (case map_of obi0 ip0 of None \<Rightarrow> [] | Some vec \<Rightarrow> vec) @ [snd e])"
      unfolding obi'_def oas_by_inst_push_def
      by (rule std_map_update_map_of [OF sorted0])
    moreover have "(case map_of obi0 ip0 of None \<Rightarrow> [] | Some vec \<Rightarrow> vec) = inst_entries ip0 es"
      by (simp add: look0 mp0_def)
    ultimately show ?thesis by simp
  qed
  have ent: "inst_entries ip (es @ [e]) = (if ip = ip0 then inst_entries ip0 es @ [snd e]
                                            else inst_entries ip es)" for ip
    using z by (auto simp: inst_entries_snoc ip0_def)
  have p1: "sorted_wrt pair_lt (map fst m')"
    unfolding m'_def oas_by_mem_push_def by (rule std_map_update_sorted [OF s1])
  have p2: "sorted_wrt pair_lt (map fst x)" if "map_of m' mp = Some x" for mp x
  proof (cases "mp = mp0")
    case True
    with that mapm have "x = obi'" by simp
    then show ?thesis
      unfolding obi'_def oas_by_inst_push_def by (simp add: std_map_update_sorted [OF sorted0])
  next
    case False
    with that mapm have "map_of m mp = Some x" by simp
    then show ?thesis by (rule s2)
  qed
  have p3: "(case map_of m' mp of None \<Rightarrow> None | Some x \<Rightarrow> map_of x ip)
              = (if mem_pair rt ip = mp \<and> inst_entries ip (es @ [e]) \<noteq> []
                 then Some (inst_entries ip (es @ [e])) else None)" for mp ip
  proof (cases "mp = mp0")
    case True
    then show ?thesis
      by (simp add: mapm mapo look0 ent mp0_def)
  next
    case False
    then have "mem_pair rt ip = mp \<Longrightarrow> ip \<noteq> ip0"
      by (auto simp: mp0_def)
    with False show ?thesis
      using s3 [where mp = mp and ip = ip] by (auto simp: mapm ent)
  qed
  from p1 p2 p3 have "oas_by_mem_inv rt (es @ [e]) m'"
    unfolding oas_by_mem_inv_def by (simp del: split_paired_All)
  then show ?thesis
    by (simp add: m'_def mp0_def ip0_def)
qed


lemma file_entries_inv:
  "oas_by_mem_inv rt es0 m \<Longrightarrow>
   oas_by_mem_inv rt (es0 @ es) (file_entries rt (filter (\<lambda>e. oas_serdez_id (snd e) = 0) es) m)"
proof (induction es arbitrary: es0 m)
  case Nil
  then show ?case by (simp add: file_entries_def)
next
  case (Cons e es)
  show ?case
  proof (cases "oas_serdez_id (snd e) = 0")
    case True
    from oas_by_mem_inv_push [OF True Cons.prems]
    have "oas_by_mem_inv rt ((es0 @ [e]) @ es)
            (file_entries rt (filter (\<lambda>e. oas_serdez_id (snd e) = 0) es)
               (oas_by_mem_push (mem_pair rt (fst e)) (fst e) (snd e) m))"
      by (rule Cons.IH)
    with True show ?thesis by (simp add: file_entries_def)
  next
    case False
    from oas_by_mem_inv_serdez [OF False Cons.prems]
    have "oas_by_mem_inv rt ((es0 @ [e]) @ es)
            (file_entries rt (filter (\<lambda>e. oas_serdez_id (snd e) = 0) es) m)"
      by (rule Cons.IH)
    with False show ?thesis by simp
  qed
qed

lemma copy_loop_walk:
  "walk_ok srcs dsts a b \<Longrightarrow>
   copy_loop rt srcs dsts a b oas_by_mem plans =
     (case walk_entries srcs dsts a b of
        (es, sl, dl) \<Rightarrow>
          Inr (sl, dl,
               file_entries rt (filter (\<lambda>e. oas_serdez_id (snd e) = 0) es) oas_by_mem,
               plans @ serdez_plans es))"
proof (induction "length srcs + length dsts" arbitrary: srcs dsts a b oas_by_mem plans
       rule: less_induct)
  case less
  show ?case
  proof (cases srcs)
    case Nil
    then show ?thesis by (simp add: file_entries_def serdez_plans_def)
  next
    case srcs: (Cons s srcs0)
    show ?thesis
    proof (cases dsts)
      case Nil
      with srcs show ?thesis by (simp add: file_entries_def serdez_plans_def)
    next
      case dsts: (Cons d dsts0)
      define n where "n = min (size s - a) (size d - b)"
      define e where "e = walk_entry s d a b"
      from less.prems srcs dsts have le: "a \<le> size s" "b \<le> size d"
        by (simp_all add: walk_ok_def)
      then have bounds: "a + n \<le> size s" "b + n \<le> size d"
        by (simp_all add: n_def min_def) unat_arith+
      have one: "a + n = size s \<or> b + n = size d"
        by (auto simp: n_def min_def)
      define srcs' where "srcs' = (if a + n = size s then srcs0 else s # srcs0)"
      define dsts' where "dsts' = (if b + n = size d then dsts0 else d # dsts0)"
      define a' where "a' = (if a + n = size s then 0 else a + n)"
      define b' where "b' = (if b + n = size d then 0 else b + n)"
      define plans' where "plans' = (if oas_serdez_id (snd e) \<noteq> 0
                    then plans @ [TransferPlanCopy (oas_by_inst_push (fst e) (snd e) [])]
                    else plans)"
      define obm' where "obm' = (if oas_serdez_id (snd e) \<noteq> 0 then oas_by_mem
           else oas_by_mem_push (mem_pair rt (fst e)) (fst e) (snd e) oas_by_mem)"
      have ok': "walk_ok srcs' dsts' a' b'"
        using bounds
        by (auto simp: walk_ok_def srcs'_def dsts'_def a'_def b'_def split: list.splits)
      have smaller: "length srcs' + length dsts' < length srcs + length dsts"
        using one by (auto simp: srcs'_def dsts'_def srcs dsts)
      define rest where "rest = copy_loop rt"
      have "copy_loop rt (s # srcs0) (d # dsts0) a b oas_by_mem plans
            = (if \<not> a + n \<le> size s then Inl AssertFailed
               else if \<not> b + n \<le> size d then Inl AssertFailed
               else rest srcs' dsts' a' b' obm' plans')"
        unfolding rest_def srcs'_def dsts'_def a'_def b'_def plans'_def obm'_def e_def
                  walk_entry_def n_def mem_pair_def
        by (simp only: copy_loop.simps Let_def fst_conv snd_conv OffsetsAndSize.simps)
      with bounds have unfold: "copy_loop rt (s # srcs0) (d # dsts0) a b oas_by_mem plans
                = copy_loop rt srcs' dsts' a' b' obm' plans'"
        by (simp only: rest_def not_True_eq_False if_True if_False)
      have ih: "copy_loop rt srcs' dsts' a' b' obm' plans' =
         (case walk_entries srcs' dsts' a' b' of
            (es, sl, dl) \<Rightarrow>
              Inr (sl, dl, file_entries rt (filter (\<lambda>e. oas_serdez_id (snd e) = 0) es) obm',
                   plans' @ serdez_plans es))"
        by (rule less.hyps [OF smaller ok'])
      have walk: "walk_entries (s # srcs0) (d # dsts0) a b =
         (case walk_entries srcs' dsts' a' b' of (es, sl, dl) \<Rightarrow> (e # es, sl, dl))"
        unfolding n_def srcs'_def dsts'_def a'_def b'_def e_def
        by (simp only: walk_entries.simps Let_def)
      obtain es sl dl where w: "walk_entries srcs' dsts' a' b' = (es, sl, dl)"
        by (cases "walk_entries srcs' dsts' a' b'")
      have fe: "file_entries rt (filter (\<lambda>e. oas_serdez_id (snd e) = 0) (e # es)) oas_by_mem
                = file_entries rt (filter (\<lambda>e. oas_serdez_id (snd e) = 0) es) obm'"
        by (simp add: file_entries_def obm'_def)
      have sp: "plans @ serdez_plans (e # es) = plans' @ serdez_plans es"
        by (simp add: serdez_plans_def plans'_def oas_by_inst_push_def)
      have lhs: "copy_loop rt srcs dsts a b oas_by_mem plans =
          Inr (sl, dl, file_entries rt (filter (\<lambda>e. oas_serdez_id (snd e) = 0) es) obm',
               plans' @ serdez_plans es)"
        by (simp only: srcs dsts unfold ih w prod.case)
      have rhs: "(case walk_entries srcs dsts a b of
            (es, sl, dl) \<Rightarrow>
              Inr (sl, dl,
                   file_entries rt (filter (\<lambda>e. oas_serdez_id (snd e) = 0) es) oas_by_mem,
                   plans @ serdez_plans es)) =
          Inr (sl, dl, file_entries rt (filter (\<lambda>e. oas_serdez_id (snd e) = 0) (e # es)) oas_by_mem,
               plans @ serdez_plans (e # es))"
        by (simp only: srcs dsts walk w prod.case)
      show ?thesis
        by (simp only: lhs rhs fe sp)
    qed
  qed
qed


lemma oas_by_mem_inv_member:
  assumes inv: "oas_by_mem_inv rt es m" and g: "(mp, obi) \<in> set m"
  shows "sorted_wrt pair_lt (map fst obi)"
    and "(ip, v) \<in> set obi \<Longrightarrow> mem_pair rt ip = mp \<and> inst_entries ip es \<noteq> [] \<and> v = inst_entries ip es"
proof -
  from inv have s1: "sorted_wrt pair_lt (map fst m)"
    and s2: "\<And>mp x. map_of m mp = Some x \<Longrightarrow> sorted_wrt pair_lt (map fst x)"
    and s3: "\<And>mp ip. (case map_of m mp of None \<Rightarrow> None | Some x \<Rightarrow> map_of x ip)
                = (if mem_pair rt ip = mp \<and> inst_entries ip es \<noteq> []
                   then Some (inst_entries ip es) else None)"
    by (simp_all add: oas_by_mem_inv_def del: split_paired_All)
  from s1 have "distinct (map fst m)" by (rule sorted_pair_lt_distinct)
  with g have look: "map_of m mp = Some obi" by simp
  then show so: "sorted_wrt pair_lt (map fst obi)" by (rule s2)
  assume "(ip, v) \<in> set obi"
  moreover from so have "distinct (map fst obi)" by (rule sorted_pair_lt_distinct)
  ultimately have "map_of obi ip = Some v" by simp
  with s3 [where mp = mp and ip = ip] look
  show "mem_pair rt ip = mp \<and> inst_entries ip es \<noteq> [] \<and> v = inst_entries ip es"
    by (simp split: if_splits)
qed

lemma plans_of_oas_by_mem_entries:
  assumes inv: "oas_by_mem_inv rt es m"
  shows "plans_of_oas_by_mem m
           = map (\<lambda>ip. TransferPlanCopy [(ip, inst_entries ip es)]) (group_keys m)"
proof -
  have "map (\<lambda>x. TransferPlanCopy [(fst x, snd x)]) (snd g)
        = map (\<lambda>ip. TransferPlanCopy [(ip, inst_entries ip es)]) (map fst (snd g))"
    if "g \<in> set m" for g
  proof -
    obtain mp obi where g: "g = (mp, obi)" by (cases g)
    have "TransferPlanCopy [(fst x, snd x)]
          = TransferPlanCopy [(fst x, inst_entries (fst x) es)]" if "x \<in> set obi" for x
    proof -
      obtain ip v where x: "x = (ip, v)" by (cases x)
      from oas_by_mem_inv_member(2) [OF inv, of mp obi ip v] that \<open>g \<in> set m\<close> g x
      show ?thesis by simp
    qed
    then show ?thesis by (simp add: g)
  qed
  then have eq: "map (\<lambda>g. map (\<lambda>x. TransferPlanCopy [(fst x, snd x)]) (snd g)) m
             = map (\<lambda>g. map (\<lambda>ip. TransferPlanCopy [(ip, inst_entries ip es)]) (map fst (snd g))) m"
    by (intro map_cong refl)
  have "plans_of_oas_by_mem m
        = concat (map (\<lambda>g. map (\<lambda>x. TransferPlanCopy [(fst x, snd x)]) (snd g)) m)"
    by (simp add: plans_of_oas_by_mem_def case_prod_unfold)
  also have "\<dots> = concat (map (\<lambda>g. map (\<lambda>ip. TransferPlanCopy [(ip, inst_entries ip es)])
                                       (map fst (snd g))) m)"
    by (simp only: eq)
  also have "\<dots> = map (\<lambda>ip. TransferPlanCopy [(ip, inst_entries ip es)]) (group_keys m)"
    by (simp only: group_keys_def map_concat map_map comp_def)
  finally show ?thesis .
qed

lemma group_keys_set:
  assumes inv: "oas_by_mem_inv rt es m"
  shows "set (group_keys m) = {ip. inst_entries ip es \<noteq> []}"
proof (intro set_eqI iffI)
  fix ip assume "ip \<in> set (group_keys m)"
  then obtain mp obi v where "(mp, obi) \<in> set m" "(ip, v) \<in> set obi"
    by (auto simp: group_keys_def)
  from oas_by_mem_inv_member(2) [OF inv this]
  show "ip \<in> {ip. inst_entries ip es \<noteq> []}" by simp
next
  fix ip assume "ip \<in> {ip. inst_entries ip es \<noteq> []}"
  then have ne: "inst_entries ip es \<noteq> []" by simp
  from inv have s3: "\<And>mp ip. (case map_of m mp of None \<Rightarrow> None | Some x \<Rightarrow> map_of x ip)
                = (if mem_pair rt ip = mp \<and> inst_entries ip es \<noteq> []
                   then Some (inst_entries ip es) else None)"
    by (simp add: oas_by_mem_inv_def del: split_paired_All)
  from s3 [where mp = "mem_pair rt ip" and ip = ip] ne
  obtain obi where "map_of m (mem_pair rt ip) = Some obi" "map_of obi ip = Some (inst_entries ip es)"
    by (cases "map_of m (mem_pair rt ip)") simp_all
  then have "(mem_pair rt ip, obi) \<in> set m" "(ip, inst_entries ip es) \<in> set obi"
    by (auto dest: map_of_SomeD)
  then show "ip \<in> set (group_keys m)"
    by (force simp: group_keys_def)
qed

lemma group_keys_sorted_aux:
  "sorted_wrt pair_lt (map fst m) \<Longrightarrow>
   (\<And>mp obi. (mp, obi) \<in> set m \<Longrightarrow> sorted_wrt pair_lt (map fst obi)) \<Longrightarrow>
   (\<And>mp obi ip. (mp, obi) \<in> set m \<Longrightarrow> ip \<in> set (map fst obi) \<Longrightarrow> mem_pair rt ip = mp) \<Longrightarrow>
   sorted_wrt (plan_key_less rt) (group_keys m)"
proof (induction m)
  case Nil
  then show ?case by (simp add: group_keys_def)
next
  case (Cons g m)
  obtain mp obi where g: "g = (mp, obi)" by (cases g)
  have tail: "sorted_wrt (plan_key_less rt) (group_keys m)"
  proof (rule Cons.IH)
    from Cons.prems(1) show "sorted_wrt pair_lt (map fst m)" by simp
  next
    fix mp obi assume "(mp, obi) \<in> set m"
    then show "sorted_wrt pair_lt (map fst obi)"
      using Cons.prems(2) [of mp obi] by simp
  next
    fix mp obi ip assume "(mp, obi) \<in> set m" "ip \<in> set (map fst obi)"
    then show "mem_pair rt ip = mp"
      using Cons.prems(3) [of mp obi ip] by simp
  qed
  have mem: "\<And>ip. ip \<in> set (map fst obi) \<Longrightarrow> mem_pair rt ip = mp"
    using Cons.prems(3) [of mp obi] g by simp
  have "sorted_wrt pair_lt (map fst obi)"
    using Cons.prems(2) [of mp obi] g by simp
  then have head: "sorted_wrt (plan_key_less rt) (map fst obi)"
    by (rule sorted_wrt_mono_rel [rotated]) (simp add: plan_key_less_def mem)
  have cross: "plan_key_less rt x y" if "x \<in> set (map fst obi)" "y \<in> set (group_keys m)" for x y
  proof -
    from that(2) obtain g' where gm: "g' \<in> set m" "y \<in> set (map fst (snd g'))"
      unfolding group_keys_def by (simp del: split_paired_Ex) (erule bexE)
    obtain mp' obi' where "g' = (mp', obi')"
      by (cases g')
    with gm have g': "(mp', obi') \<in> set m" "y \<in> set (map fst obi')"
      by simp_all
    then have "mem_pair rt y = mp'"
      using Cons.prems(3) [of mp' obi' y] by simp
    moreover from g' Cons.prems(1) g have "pair_lt mp mp'" by force
    ultimately show ?thesis
      using mem [OF that(1)] by (simp add: plan_key_less_def)
  qed
  have "group_keys (g # m) = map fst obi @ group_keys m"
    by (simp add: group_keys_def g)
  with head tail cross show ?case
    by (simp add: sorted_wrt_append)
qed

lemma group_keys_sorted:
  assumes inv: "oas_by_mem_inv rt es m"
  shows "sorted_wrt (plan_key_less rt) (group_keys m)"
proof (rule group_keys_sorted_aux)
  from inv show "sorted_wrt pair_lt (map fst m)"
    by (simp add: oas_by_mem_inv_def)
next
  fix mp obi assume "(mp, obi) \<in> set m"
  then show "sorted_wrt pair_lt (map fst obi)"
    by (rule oas_by_mem_inv_member(1) [OF inv])
next
  fix mp obi ip assume g: "(mp, obi) \<in> set m" and "ip \<in> set (map fst obi)"
  then obtain v where "(ip, v) \<in> set obi" by auto
  from oas_by_mem_inv_member(2) [OF inv g this]
  show "mem_pair rt ip = mp" by simp
qed


lemma walk_entries_total:
  "walk_ok srcs dsts a b \<Longrightarrow> walk_entries srcs dsts a b = (es, [], []) \<Longrightarrow>
   sum_list (map (\<lambda>e. unat (oas_size (snd e))) es) + unat a
     = sum_list (map (\<lambda>s. unat (size s)) srcs) \<and>
   sum_list (map (\<lambda>e. unat (oas_size (snd e))) es) + unat b
     = sum_list (map (\<lambda>d. unat (size d)) dsts)"
proof (induction "length srcs + length dsts" arbitrary: srcs dsts a b es rule: less_induct)
  case less
  show ?case
  proof (cases srcs)
    case Nil
    with less.prems show ?thesis by (simp add: walk_ok_def)
  next
    case srcs: (Cons s srcs0)
    show ?thesis
    proof (cases dsts)
      case Nil
      with srcs less.prems show ?thesis by simp
    next
      case dsts: (Cons d dsts0)
      define n where "n = min (size s - a) (size d - b)"
      define e where "e = walk_entry s d a b"
      from less.prems srcs dsts have le: "a \<le> size s" "b \<le> size d"
        by (simp_all add: walk_ok_def)
      then have bounds: "a + n \<le> size s" "b + n \<le> size d"
        by (simp_all add: n_def min_def) unat_arith+
      have one: "a + n = size s \<or> b + n = size d"
        by (auto simp: n_def min_def)
      define srcs' where "srcs' = (if a + n = size s then srcs0 else s # srcs0)"
      define dsts' where "dsts' = (if b + n = size d then dsts0 else d # dsts0)"
      define a' where "a' = (if a + n = size s then 0 else a + n)"
      define b' where "b' = (if b + n = size d then 0 else b + n)"
      have ok': "walk_ok srcs' dsts' a' b'"
        using bounds
        by (auto simp: walk_ok_def srcs'_def dsts'_def a'_def b'_def split: list.splits)
      have smaller: "length srcs' + length dsts' < length srcs + length dsts"
        using one by (auto simp: srcs'_def dsts'_def srcs dsts)
      have raw: "walk_entries (s # srcs0) (d # dsts0) a b =
         (case walk_entries srcs' dsts' a' b' of (es, sl, dl) \<Rightarrow> (e # es, sl, dl))"
        unfolding n_def srcs'_def dsts'_def a'_def b'_def e_def
        by (simp only: walk_entries.simps Let_def)
      obtain es' sl dl where w: "walk_entries srcs' dsts' a' b' = (es', sl, dl)"
        by (cases "walk_entries srcs' dsts' a' b'")
      from less.prems(2) have "es = e # es'" "sl = []" "dl = []"
        unfolding srcs dsts raw w by auto
      with w have w': "walk_entries srcs' dsts' a' b' = (es', [], [])" by simp
      from less.hyps [OF smaller ok' w']
      have ih: "sum_list (map (\<lambda>e. unat (oas_size (snd e))) es') + unat a'
                  = sum_list (map (\<lambda>s. unat (size s)) srcs')"
               "sum_list (map (\<lambda>e. unat (oas_size (snd e))) es') + unat b'
                  = sum_list (map (\<lambda>d. unat (size d)) dsts')"
        by simp_all
      have en: "oas_size (snd e) = n"
        by (simp add: e_def walk_entry_def n_def)
      have nle: "n \<le> size s - a" "n \<le> size d - b"
        by (simp_all add: n_def)
      from le(1) nle(1) have ua: "unat (a + n) = unat a + unat n"
        by unat_arith
      from le(2) nle(2) have ub: "unat (b + n) = unat b + unat n"
        by unat_arith
      from ih(1) ua have "sum_list (map (\<lambda>e. unat (oas_size (snd e))) es') + unat n + unat a
                           = unat (size s) + sum_list (map (\<lambda>s. unat (size s)) srcs0)"
        by (auto simp: srcs'_def a'_def split: if_splits)
      moreover
      from ih(2) ub have "sum_list (map (\<lambda>e. unat (oas_size (snd e))) es') + unat n + unat b
                           = unat (size d) + sum_list (map (\<lambda>d. unat (size d)) dsts0)"
        by (auto simp: dsts'_def b'_def split: if_splits)
      ultimately show ?thesis
        by (simp add: \<open>es = e # es'\<close> en srcs dsts)
    qed
  qed
qed

text \<open>
  C2 (as amended). A \<open>plan_copy\<close> call without a reduction operator walks \<open>srcs\<close> and
  \<open>dsts\<close> in parallel (\<open>walk_entries\<close>): each step makes an entry for the current
  source and destination field, as large as the smaller of what is left of the two,
  with the serdez identifier of the source field, starting in either field at its
  offset plus the bytes of it already covered (a 32-bit sum that wraps around), and
  leaves behind whichever field is used up. The call fails its assertion unless both
  lists run out together; when they do, the entries add up to the bytes of the
  sources and to the bytes of the destinations. Every entry with a serdez identifier becomes a copy plan of its own,
  with that single entry, in walk order. The other entries are filed by memory pair
  and, within it, by instance pair, and every instance pair (not every memory pair)
  becomes one copy plan holding its entries in walk order; these plans come after the
  serdez plans, ordered by memory pair and then by instance pair.
\<close>

theorem plan_copy_grouping:
  assumes "redop_id = 0" and "walk_entries srcs dsts 0 0 = (es, sl, dl)"
  shows "(sl \<noteq> [] \<or> dl \<noteq> [] \<longrightarrow>
            plan_copy rt plans srcs dsts redop_id red_fold = Inl AssertFailed)
       \<and> (sl = [] \<and> dl = [] \<longrightarrow>
            (\<exists>keys. plan_copy rt plans srcs dsts redop_id red_fold
                       = Inr (plans @ serdez_plans es
                              @ map (\<lambda>ip. TransferPlanCopy [(ip, inst_entries ip es)]) keys)
                   \<and> sorted_wrt (plan_key_less rt) keys
                   \<and> set keys = {ip. inst_entries ip es \<noteq> []})
            \<and> sum_list (map (\<lambda>e. unat (oas_size (snd e))) es) = sum_list (map (\<lambda>s. unat (size s)) srcs)
            \<and> sum_list (map (\<lambda>e. unat (oas_size (snd e))) es) = sum_list (map (\<lambda>d. unat (size d)) dsts))"
proof -
  define m where "m = file_entries rt (filter (\<lambda>e. oas_serdez_id (snd e) = 0) es) []"
  have ok: "walk_ok srcs dsts 0 0"
    by (simp add: walk_ok_def split: list.splits)
  have loop: "copy_loop rt srcs dsts 0 0 [] plans = Inr (sl, dl, m, plans @ serdez_plans es)"
    by (simp add: copy_loop_walk [OF ok] assms(2) m_def)
  have inv: "oas_by_mem_inv rt es m"
    using file_entries_inv [OF oas_by_mem_inv_empty, of rt es] by (simp add: m_def)
  have fail: "sl \<noteq> [] \<or> dl \<noteq> [] \<longrightarrow>
            plan_copy rt plans srcs dsts redop_id red_fold = Inl AssertFailed"
    by (simp add: plan_copy_def assms(1) loop)
  have good: "sl = [] \<and> dl = [] \<longrightarrow>
            (\<exists>keys. plan_copy rt plans srcs dsts redop_id red_fold
                       = Inr (plans @ serdez_plans es
                              @ map (\<lambda>ip. TransferPlanCopy [(ip, inst_entries ip es)]) keys)
                   \<and> sorted_wrt (plan_key_less rt) keys
                   \<and> set keys = {ip. inst_entries ip es \<noteq> []})
            \<and> sum_list (map (\<lambda>e. unat (oas_size (snd e))) es) = sum_list (map (\<lambda>s. unat (size s)) srcs)
            \<and> sum_list (map (\<lambda>e. unat (oas_size (snd e))) es) = sum_list (map (\<lambda>d. unat (size d)) dsts)"
  proof
    assume e: "sl = [] \<and> dl = []"
    have "plan_copy rt plans srcs dsts redop_id red_fold
            = Inr (plans @ serdez_plans es
                   @ map (\<lambda>ip. TransferPlanCopy [(ip, inst_entries ip es)]) (group_keys m))"
      by (simp add: plan_copy_def assms(1) loop e plans_of_oas_by_mem_entries [OF inv])
    with group_keys_sorted [OF inv] group_keys_set [OF inv]
    have ex: "\<exists>keys. plan_copy rt plans srcs dsts redop_id red_fold
                       = Inr (plans @ serdez_plans es
                              @ map (\<lambda>ip. TransferPlanCopy [(ip, inst_entries ip es)]) keys)
                   \<and> sorted_wrt (plan_key_less rt) keys
                   \<and> set keys = {ip. inst_entries ip es \<noteq> []}"
      by (intro exI [of _ "group_keys m"] conjI)
    from walk_entries_total [OF ok, of es] assms(2) e
    have "sum_list (map (\<lambda>e. unat (oas_size (snd e))) es) = sum_list (map (\<lambda>s. unat (size s)) srcs)"
         "sum_list (map (\<lambda>e. unat (oas_size (snd e))) es) = sum_list (map (\<lambda>d. unat (size d)) dsts)"
      by simp_all
    with ex show "(\<exists>keys. plan_copy rt plans srcs dsts redop_id red_fold
                       = Inr (plans @ serdez_plans es
                              @ map (\<lambda>ip. TransferPlanCopy [(ip, inst_entries ip es)]) keys)
                   \<and> sorted_wrt (plan_key_less rt) keys
                   \<and> set keys = {ip. inst_entries ip es \<noteq> []})
            \<and> sum_list (map (\<lambda>e. unat (oas_size (snd e))) es) = sum_list (map (\<lambda>s. unat (size s)) srcs)
            \<and> sum_list (map (\<lambda>e. unat (oas_size (snd e))) es) = sum_list (map (\<lambda>d. unat (size d)) dsts)"
      by simp
  qed
  from fail good show ?thesis by (rule conjI)
qed


theorem plan_copy_grouping_witness:
  "walk_entries example_copy_srcs example_copy_dsts 0 0
     = ([((120, 250), \<lparr>src_offset = 0, dst_offset = 0, oas_size = 4, oas_serdez_id = 0\<rparr>),
         ((121, 250), \<lparr>src_offset = 0, dst_offset = 4, oas_size = 4, oas_serdez_id = 0\<rparr>),
         ((130, 250), \<lparr>src_offset = 16, dst_offset = 8, oas_size = 2, oas_serdez_id = 9\<rparr>),
         ((130, 251), \<lparr>src_offset = 18, dst_offset = 0, oas_size = 4, oas_serdez_id = 9\<rparr>)],
        [], [])
   \<and> plan_copy example_runtime [] example_copy_srcs example_copy_dsts 0 False
     = Inr [TransferPlanCopy
              [((130, 250), [\<lparr>src_offset = 16, dst_offset = 8, oas_size = 2, oas_serdez_id = 9\<rparr>])],
            TransferPlanCopy
              [((130, 251), [\<lparr>src_offset = 18, dst_offset = 0, oas_size = 4, oas_serdez_id = 9\<rparr>])],
            TransferPlanCopy
              [((120, 250), [\<lparr>src_offset = 0, dst_offset = 0, oas_size = 4, oas_serdez_id = 0\<rparr>])],
            TransferPlanCopy
              [((121, 250), [\<lparr>src_offset = 0, dst_offset = 4, oas_size = 4, oas_serdez_id = 0\<rparr>])]]
   \<and> sum_list (map (\<lambda>s. unat (size s)) example_copy_srcs) = 14
   \<and> sum_list (map (\<lambda>d. unat (size d)) example_copy_dsts) = 14
   \<and> walk_entries example_wrap_srcs example_wrap_dsts 0 0
     = ([((120, 250), \<lparr>src_offset = 4294967295, dst_offset = 0, oas_size = 4, oas_serdez_id = 0\<rparr>),
         ((120, 250), \<lparr>src_offset = 3, dst_offset = 4, oas_size = 4, oas_serdez_id = 0\<rparr>)],
        [], [])
   \<and> plan_copy example_runtime [] example_wrap_srcs example_wrap_dsts 0 False
     = Inr [TransferPlanCopy
              [((120, 250),
                [\<lparr>src_offset = 4294967295, dst_offset = 0, oas_size = 4, oas_serdez_id = 0\<rparr>,
                 \<lparr>src_offset = 3, dst_offset = 4, oas_size = 4, oas_serdez_id = 0\<rparr>])]]
   \<and> plan_copy example_runtime [] example_wrap_srcs [example_field 250 0 4 0] 0 False
     = Inl AssertFailed"
proof -
  have w: "walk_entries example_copy_srcs example_copy_dsts 0 0
     = ([((120, 250), \<lparr>src_offset = 0, dst_offset = 0, oas_size = 4, oas_serdez_id = 0\<rparr>),
         ((121, 250), \<lparr>src_offset = 0, dst_offset = 4, oas_size = 4, oas_serdez_id = 0\<rparr>),
         ((130, 250), \<lparr>src_offset = 16, dst_offset = 8, oas_size = 2, oas_serdez_id = 9\<rparr>),
         ((130, 251), \<lparr>src_offset = 18, dst_offset = 0, oas_size = 4, oas_serdez_id = 9\<rparr>)],
        [], [])"
    by (simp add: example_copy_srcs_def example_copy_dsts_def example_field_def walk_entry_def)
  have w2: "walk_entries example_wrap_srcs example_wrap_dsts 0 0
     = ([((120, 250), \<lparr>src_offset = 4294967295, dst_offset = 0, oas_size = 4, oas_serdez_id = 0\<rparr>),
         ((120, 250), \<lparr>src_offset = 3, dst_offset = 4, oas_size = 4, oas_serdez_id = 0\<rparr>)],
        [], [])"
    by (simp add: example_wrap_srcs_def example_wrap_dsts_def example_field_def walk_entry_def)
  have w3: "walk_entries example_wrap_srcs [example_field 250 0 4 0] 0 0
     = ([((120, 250), \<lparr>src_offset = 4294967295, dst_offset = 0, oas_size = 4, oas_serdez_id = 0\<rparr>)],
        [example_field 120 4294967295 8 0], [])"
    by (simp add: example_wrap_srcs_def example_field_def walk_entry_def)
  have p: "plan_copy example_runtime [] example_copy_srcs example_copy_dsts 0 False
     = Inr [TransferPlanCopy
              [((130, 250), [\<lparr>src_offset = 16, dst_offset = 8, oas_size = 2, oas_serdez_id = 9\<rparr>])],
            TransferPlanCopy
              [((130, 251), [\<lparr>src_offset = 18, dst_offset = 0, oas_size = 4, oas_serdez_id = 9\<rparr>])],
            TransferPlanCopy
              [((120, 250), [\<lparr>src_offset = 0, dst_offset = 0, oas_size = 4, oas_serdez_id = 0\<rparr>])],
            TransferPlanCopy
              [((121, 250), [\<lparr>src_offset = 0, dst_offset = 4, oas_size = 4, oas_serdez_id = 0\<rparr>])]]"
    by (simp add: plan_copy_def example_copy_srcs_def example_copy_dsts_def example_field_def
                  example_runtime_def oas_by_inst_push_def oas_by_mem_push_def pair_lt_def
                  plans_of_oas_by_mem_def)
  have p2: "plan_copy example_runtime [] example_wrap_srcs example_wrap_dsts 0 False
     = Inr [TransferPlanCopy
              [((120, 250),
                [\<lparr>src_offset = 4294967295, dst_offset = 0, oas_size = 4, oas_serdez_id = 0\<rparr>,
                 \<lparr>src_offset = 3, dst_offset = 4, oas_size = 4, oas_serdez_id = 0\<rparr>])]]"
    by (simp add: plan_copy_def example_wrap_srcs_def example_wrap_dsts_def example_field_def
                  example_runtime_def oas_by_inst_push_def oas_by_mem_push_def pair_lt_def
                  plans_of_oas_by_mem_def)
  from plan_copy_grouping [OF refl w3, of example_runtime "[]" False]
  have p3: "plan_copy example_runtime [] example_wrap_srcs [example_field 250 0 4 0] 0 False
     = Inl AssertFailed"
    by simp
  from plan_copy_grouping [OF refl w, of example_runtime "[]" False] w p w2 p2 p3
  show ?thesis
    by (simp add: example_copy_srcs_def example_copy_dsts_def example_field_def)
qed

text \<open>
  C2 as it is written fails: fields of one memory pair are not kept in one plan. The
  first two source fields lie in two instances of the same memory, the destination
  field in a third instance; the memory pair is the same for both, and the planner
  makes two plans.
\<close>

theorem plan_copy_memory_pair_counterexample:
  "mem_pair example_runtime (120, 250) = mem_pair example_runtime (121, 250)
   \<and> plan_copy example_runtime [] [example_field 120 0 4 0, example_field 121 0 4 0]
                                  [example_field 250 0 8 0] 0 False
     = Inr [TransferPlanCopy
              [((120, 250), [\<lparr>src_offset = 0, dst_offset = 0, oas_size = 4, oas_serdez_id = 0\<rparr>])],
            TransferPlanCopy
              [((121, 250), [\<lparr>src_offset = 0, dst_offset = 4, oas_size = 4, oas_serdez_id = 0\<rparr>])]]"
  by (simp add: plan_copy_def example_field_def mem_pair_def
                example_runtime_def oas_by_inst_push_def oas_by_mem_push_def pair_lt_def
                plans_of_oas_by_mem_def)

section \<open>Properties of the transfer iterators\<close>

subsection \<open>Growth of the chunk of a rectangle step\<close>

lemma grow_loop_append:
  "grow_loop r p me (xs @ ys) st =
     (case grow_loop r p me xs st of Inl e \<Rightarrow> Inl e | Inr st' \<Rightarrow> grow_loop r p me ys st')"
proof (induction xs arbitrary: st)
  case Nil
  then show ?case by simp
next
  case (Cons d xs)
  obtain g c t where st: "st = (g, c, t)" by (cases st)
  show ?case
    unfolding st by (simp add: Cons.IH Let_def)
qed

lemma grow_loop_stopped:
  "grow_loop r p me ds (False, c, thi) = Inr (False, c, fold (\<lambda>d t. t[d := p ! d]) ds thi)"
  by (induction ds arbitrary: thi) simp_all

lemma fold_update_length:
  "length (fold (\<lambda>d t. t[d := f d]) ds thi) = length thi"
  by (induction ds arbitrary: thi) simp_all

lemma fold_update_nth:
  "d \<in> set ds \<Longrightarrow> d < length thi \<Longrightarrow> fold (\<lambda>d t. t[d := f d]) ds thi ! d = f d"
proof (induction ds arbitrary: thi)
  case Nil
  then show ?case by simp
next
  case (Cons x ds)
  show ?case
  proof (cases "d \<in> set ds")
    case True
    with Cons show ?thesis by simp
  next
    case False
    have keep: "fold (\<lambda>d t. t[d := f d]) ds t ! d = t ! d" for t
      using False by (induction ds arbitrary: t) auto
    from False Cons.prems have "x = d" by simp
    with Cons.prems keep show ?thesis by simp
  qed
qed

lemma grow_loop_length:
  "grow_loop r p me ds (g, c, thi) = Inr (g', c', thi') \<Longrightarrow> length thi' = length thi"
proof (induction ds arbitrary: g c thi)
  case Nil
  then show ?case by simp
next
  case (Cons d ds)
  from Cons.prems show ?case
    by (auto simp: Let_def split: if_splits dest: Cons.IH)
qed


lemma grow_loop_untouched:
  "d \<notin> set ds \<Longrightarrow> grow_loop r p me ds (g, c, thi) = Inr (g', c', thi') \<Longrightarrow> thi' ! d = thi ! d"
proof (induction ds arbitrary: g c thi)
  case Nil
  then show ?case by simp
next
  case (Cons x ds)
  from Cons.prems(1) have nx: "x \<noteq> d" and nd: "d \<notin> set ds" by auto
  from Cons.prems(2) obtain g2 c2 v where
    "grow_loop r p me ds (g2, c2, thi[x := v]) = Inr (g', c', thi')"
    by (auto simp: Let_def split: if_splits)
  from Cons.IH [OF nd this] nx show ?case by simp
qed

lemma target_subrect_grown:
  assumes "target_subrect env r p max_elems = Inr target"
      and "grow_loop r p max_elems [0..<d'] (True, 1, replicate (DIM env) 0) = Inr (True, count, thi)"
      and "d' < DIM env"
  shows "lo target = p
       \<and> hi target ! d' = (if count * (hi r ! d' - p ! d' + 1) \<le> max_elems then hi r ! d'
                           else p ! d' + max_elems div count - 1)
       \<and> (p ! d' \<noteq> lo r ! d' \<or> \<not> count * (hi r ! d' - p ! d' + 1) \<le> max_elems \<longrightarrow>
            (\<forall>d. d' < d \<and> d < DIM env \<longrightarrow>
                 hi target ! d = p ! d \<and> hi target ! d - lo target ! d + 1 = 1))"
proof -
  define len where "len = hi r ! d' - p ! d' + 1"
  define v where "v = (if count * len \<le> max_elems then hi r ! d' else p ! d' + max_elems div count - 1)"
  define g2 where "g2 = (count * len \<le> max_elems \<and> p ! d' = lo r ! d')"
  define c2 where "c2 = (if count * len \<le> max_elems then count * len else count * (max_elems div count))"
  from assms(1) obtain gf cf where
    fin: "grow_loop r p max_elems [0..<DIM env] (True, 1, replicate (DIM env) 0) = Inr (gf, cf, hi target)"
    and lo: "lo target = p"
    by (auto simp: target_subrect_def split: sum.splits)
  have split: "[0..<DIM env] = [0..<d'] @ d' # [Suc d'..<DIM env]"
    using assms(3) by (metis le_add2 le_add_same_cancel2 upt_add_eq_append upt_conv_Cons
        less_imp_add_positive add.commute)
  from fin have rest: "grow_loop r p max_elems (d' # [Suc d'..<DIM env]) (True, count, thi)
                       = Inr (gf, cf, hi target)"
    unfolding split grow_loop_append assms(2) by simp
  then have tail: "grow_loop r p max_elems [Suc d'..<DIM env] (g2, c2, thi[d' := v])
                   = Inr (gf, cf, hi target)"
    by (auto simp: Let_def len_def v_def g2_def c2_def split: if_splits)
  have lthi: "length thi = DIM env"
    using grow_loop_length [OF assms(2)] by simp
  have "d' \<notin> set [Suc d'..<DIM env]" by simp
  from grow_loop_untouched [OF this tail] lthi assms(3)
  have at: "hi target ! d' = v" by simp
  have after: "hi target ! d = p ! d \<and> hi target ! d - lo target ! d + 1 = 1"
    if part: "p ! d' \<noteq> lo r ! d' \<or> \<not> count * len \<le> max_elems" and d: "d' < d" "d < DIM env" for d
  proof -
    from part have "g2 = False" by (auto simp: g2_def)
    with tail have "hi target = fold (\<lambda>d t. t[d := p ! d]) [Suc d'..<DIM env] (thi[d' := v])"
      by (simp add: grow_loop_stopped)
    moreover from d have "d \<in> set [Suc d'..<DIM env]" by simp
    ultimately have "hi target ! d = p ! d"
      using lthi d(2) by (simp add: fold_update_nth)
    with lo show ?thesis by simp
  qed
  from lo at after show ?thesis
    unfolding v_def len_def by simp
qed

lemma rect_step_chunkD:
  assumes "rect_step env max_bytes tentative it = Inr (bytes, Some info, it')"
  shows "\<exists>act. rect_chunk env (iter_r it) (iter_p it) (field_offsets it ! field_idx it)
                  (field_sizes it ! field_idx it) (max_bytes div field_sizes it ! field_idx it)
                = Inr (info, act)
             \<and> bytes = bytes_per_chunk info
             \<and> next_p it' = snd (carry_loop (iter_r it) act [0..<DIM env] (True, next_p it))"
  using assms
  by (auto simp: rect_step_def Let_def split: if_splits sum.splits prod.splits)

lemma rect_chunkD:
  assumes "rect_chunk env r p fo fs me = Inr (info, act)"
  shows "\<exists>target img act0 first_block block_ofs act_count.
            target_subrect env r p me = Inr target
          \<and> image_dense_subrect env target = (img, act0)
          \<and> block_split env img act0 (volume env act0) = Inr (first_block, block_ofs, act_count, hi act)
          \<and> lo act = lo act0
          \<and> bytes_per_chunk info = act_count * fs"
  using assms
  by (auto simp: rect_chunk_def Let_def split: sum.splits prod.splits)

lemma fold_collapse_keeps:
  "h ! d = alo ! d \<Longrightarrow> fold (\<lambda>d' h. h[d' := alo ! d']) ds h ! d = alo ! d"
proof (induction ds arbitrary: h)
  case Nil
  then show ?case by simp
next
  case (Cons x ds)
  have "h[x := alo ! x] ! d = alo ! d"
    using Cons.prems by (cases "x < length h") (simp_all add: nth_list_update list_update_beyond)
  then show ?case by (simp add: Cons.IH)
qed

lemma shrink_loop_collapsed:
  "shrink_loop max_len alo ds (nc, ahi) = Inr (nc', ahi') \<Longrightarrow> ahi ! d = alo ! d \<Longrightarrow>
   ahi' ! d = alo ! d"
proof (induction ds arbitrary: nc ahi)
  case Nil
  then show ?case by simp
next
  case (Cons x ds)
  show ?case
  proof (cases "alo ! x = ahi ! x")
    case True
    with Cons.prems show ?thesis by (auto dest: Cons.IH)
  next
    case False
    with Cons.prems(2) have xd: "x \<noteq> d" by auto
    show ?thesis
    proof (cases "nc * (ahi ! x - alo ! x + 1) \<le>s max_len")
      case True
      with False Cons.prems show ?thesis by (auto simp: Let_def dest: Cons.IH)
    next
      case nofit: False
      with False Cons.prems(1)
      have "ahi' = fold (\<lambda>d' h. h[d' := alo ! d']) ds
                     (ahi[x := alo ! x + coord_sdiv max_len nc - 1])"
        by (auto simp: Let_def split: if_splits)
      moreover from xd Cons.prems(2) have "(ahi[x := alo ! x + coord_sdiv max_len nc - 1]) ! d = alo ! d"
        by simp
      ultimately show ?thesis
        by (simp add: fold_collapse_keeps)
    qed
  qed
qed

lemma block_split_collapsed:
  assumes "block_split env img act act_count = Inr (first_block, block_ofs, act_count', ahi)"
      and "0 < d" and "hi act ! d = lo act ! d"
  shows "ahi ! d = lo act ! d"
  using assms
  by (auto simp: block_split_def Let_def split: if_splits sum.splits
           dest: shrink_loop_collapsed)

lemma block_split_one_block:
  assumes "block_size env > snd img"
  shows "block_split env img act act_count = Inr (0, fst img, act_count, hi act)"
  using assms by (simp add: block_split_def)

text \<open>
  C6. When a step of the rectangle iterator hands out a chunk, the chunk is cut from
  the target subrectangle, which starts at the current point and is grown dimension
  by dimension, in the order of the dimensions. A dimension \<open>d'\<close> reached while still
  growing (the loop over the dimensions before it ends with \<open>grow\<close> set and the
  running \<open>count\<close>) is taken up to the end of the rectangle when the budget
  \<open>max_elems\<close> allows it, and up to what the budget allows otherwise. When it is
  handled only in part (the current point is not on the lower bound of the rectangle
  there, or the budget cut it short), no dimension after it is grown: the target is one
  element thick in each of them, and so is the rectangle of the chunk
  (\<open>act_subrect\<close> after the shortening to one block), provided the linearization
  returns a subrectangle with the same lower corner that is one element thick wherever
  the target is. When the linearization covers the whole target and the image lies in
  one block, the chunk is the target itself and its byte count is the volume of the
  target times the field size. The step returns the byte count of the chunk, and
  \<open>next_p\<close> is set from the rectangle of the chunk.
\<close>

theorem rect_step_chunk_growth:
  assumes "rect_step env max_bytes tentative it = Inr (bytes, Some info, it')"
      and "max_elems = max_bytes div field_sizes it ! field_idx it"
      and "grow_loop (iter_r it) (iter_p it) max_elems [0..<d'] (True, 1, replicate (DIM env) 0)
           = Inr (True, count, thi)"
      and "d' < DIM env"
  shows "\<exists>target img act0 act.
           target_subrect env (iter_r it) (iter_p it) max_elems = Inr target
         \<and> image_dense_subrect env target = (img, act0)
         \<and> rect_chunk env (iter_r it) (iter_p it) (field_offsets it ! field_idx it)
                        (field_sizes it ! field_idx it) max_elems = Inr (info, act)
         \<and> bytes = bytes_per_chunk info
         \<and> next_p it' = snd (carry_loop (iter_r it) act [0..<DIM env] (True, next_p it))
         \<and> lo target = iter_p it
         \<and> hi target ! d' =
             (if count * (hi (iter_r it) ! d' - iter_p it ! d' + 1) \<le> max_elems
              then hi (iter_r it) ! d' else iter_p it ! d' + max_elems div count - 1)
         \<and> (iter_p it ! d' \<noteq> lo (iter_r it) ! d'
              \<or> \<not> count * (hi (iter_r it) ! d' - iter_p it ! d' + 1) \<le> max_elems \<longrightarrow>
              (\<forall>d. d' < d \<and> d < DIM env \<longrightarrow>
                   hi target ! d = iter_p it ! d \<and> hi target ! d - lo target ! d + 1 = 1)
            \<and> (lo act0 = lo target
                 \<and> (\<forall>d<DIM env. hi target ! d = lo target ! d \<longrightarrow> hi act0 ! d = lo act0 ! d) \<longrightarrow>
                 (\<forall>d. d' < d \<and> d < DIM env \<longrightarrow>
                      lo act ! d = iter_p it ! d \<and> hi act ! d = iter_p it ! d
                    \<and> hi act ! d - lo act ! d + 1 = 1)))
         \<and> (act0 = target \<and> snd img < block_size env \<longrightarrow>
              act = target \<and> bytes = volume env target * field_sizes it ! field_idx it)"
proof -
  define r where "r = iter_r it"
  define p where "p = iter_p it"
  define fs where "fs = field_sizes it ! field_idx it"
  from rect_step_chunkD [OF assms(1)] obtain act where
    chunk: "rect_chunk env r p (field_offsets it ! field_idx it) fs max_elems = Inr (info, act)"
    and bytes: "bytes = bytes_per_chunk info"
    and np: "next_p it' = snd (carry_loop r act [0..<DIM env] (True, next_p it))"
    unfolding r_def p_def fs_def assms(2) by (elim exE conjE)
  from rect_chunkD [OF chunk] obtain target img act0 first_block block_ofs act_count where
    target: "target_subrect env r p max_elems = Inr target"
    and image: "image_dense_subrect env target = (img, act0)"
    and split: "block_split env img act0 (volume env act0) = Inr (first_block, block_ofs, act_count, hi act)"
    and lo_act: "lo act = lo act0"
    and count: "bytes_per_chunk info = act_count * fs"
    by (elim exE conjE)
  from target_subrect_grown [OF target assms(3) [folded r_def p_def] assms(4)]
  have lo: "lo target = p"
    and at: "hi target ! d' = (if count * (hi r ! d' - p ! d' + 1) \<le> max_elems then hi r ! d'
                               else p ! d' + max_elems div count - 1)"
    and after: "p ! d' \<noteq> lo r ! d' \<or> \<not> count * (hi r ! d' - p ! d' + 1) \<le> max_elems \<longrightarrow>
            (\<forall>d. d' < d \<and> d < DIM env \<longrightarrow>
                 hi target ! d = p ! d \<and> hi target ! d - lo target ! d + 1 = 1)"
    by simp_all
  have chunk_after: "lo act ! d = p ! d \<and> hi act ! d = p ! d \<and> hi act ! d - lo act ! d + 1 = 1"
    if part: "p ! d' \<noteq> lo r ! d' \<or> \<not> count * (hi r ! d' - p ! d' + 1) \<le> max_elems"
      and m1: "lo act0 = lo target"
      and m2: "\<forall>d<DIM env. hi target ! d = lo target ! d \<longrightarrow> hi act0 ! d = lo act0 ! d"
      and d: "d' < d" "d < DIM env" for d
  proof -
    from after part d have "hi target ! d = p ! d" by simp
    with lo m1 m2 d(2) have c: "hi act0 ! d = lo act0 ! d" and l: "lo act0 ! d = p ! d"
      by simp_all
    from d(1) have "0 < d" by simp
    from block_split_collapsed [OF split this c] have "hi act ! d = lo act0 ! d" .
    with l lo_act show ?thesis by simp
  qed
  have dense: "act = target \<and> bytes = volume env target * fs"
    if "act0 = target" "snd img < block_size env"
  proof -
    from split block_split_one_block [OF that(2), where act = act0 and act_count = "volume env act0"]
    have "hi act = hi act0" "act_count = volume env act0" by simp_all
    with lo_act that(1) bytes count show ?thesis by simp
  qed
  show ?thesis
    apply (rule exI [of _ target], rule exI [of _ img], rule exI [of _ act0], rule exI [of _ act])
    using target image chunk bytes np lo at after chunk_after dense
    unfolding r_def p_def fs_def
    apply (intro conjI impI allI)
    apply simp_all
    done
qed


theorem rect_step_chunk_growth_witness:
  "rect_step example_rect_env 4000 False example_rect_iter
     = Inr (280, Some \<lparr>base_offset = 184, bytes_per_chunk = 280, num_lines = 1, line_stride = 0,
                       num_planes = 1, plane_stride = 0\<rparr>,
            example_rect_iter\<lparr>iter_p := [0, 0, 1], next_p := [0, 0, 1]\<rparr>)
   \<and> rect_chunk example_rect_env example_rect [0, 3, 0] 0 4 1000
     = Inr (\<lparr>base_offset = 184, bytes_per_chunk = 280, num_lines = 1, line_stride = 0,
             num_planes = 1, plane_stride = 0\<rparr>, \<lparr>lo = [0, 3, 0], hi = [9, 9, 0]\<rparr>)
   \<and> (280 :: size_t) = volume example_rect_env \<lparr>lo = [0, 3, 0], hi = [9, 9, 0]\<rparr> * 4
   \<and> rect_step example_rect_env 100 False (example_rect_iter\<lparr>iter_p := [0, 0, 0]\<rparr>)
     = Inr (80, Some \<lparr>base_offset = 64, bytes_per_chunk = 80, num_lines = 1, line_stride = 0,
                      num_planes = 1, plane_stride = 0\<rparr>,
            example_rect_iter\<lparr>iter_p := [0, 2, 0], next_p := [0, 2, 0]\<rparr>)
   \<and> rect_chunk example_rect_env example_rect [0, 0, 0] 0 4 25
     = Inr (\<lparr>base_offset = 64, bytes_per_chunk = 80, num_lines = 1, line_stride = 0,
             num_planes = 1, plane_stride = 0\<rparr>, \<lparr>lo = [0, 0, 0], hi = [9, 1, 0]\<rparr>)
   \<and> (80 :: size_t) = volume example_rect_env \<lparr>lo = [0, 0, 0], hi = [9, 1, 0]\<rparr> * 4"
proof -
  define it2 where "it2 = example_rect_iter\<lparr>iter_p := [0, 0, 0]\<rparr>"
  have s1: "rect_step example_rect_env 4000 False example_rect_iter
     = Inr (280, Some \<lparr>base_offset = 184, bytes_per_chunk = 280, num_lines = 1, line_stride = 0,
                       num_planes = 1, plane_stride = 0\<rparr>,
            example_rect_iter\<lparr>iter_p := [0, 0, 1], next_p := [0, 0, 1]\<rparr>)"
    by code_simp
  have s2: "rect_step example_rect_env 100 False it2
     = Inr (80, Some \<lparr>base_offset = 64, bytes_per_chunk = 80, num_lines = 1, line_stride = 0,
                      num_planes = 1, plane_stride = 0\<rparr>,
            example_rect_iter\<lparr>iter_p := [0, 2, 0], next_p := [0, 2, 0]\<rparr>)"
    unfolding it2_def by code_simp
  have m1: "(1000 :: size_t) = 4000 div field_sizes example_rect_iter ! field_idx example_rect_iter"
    by (simp add: example_rect_iter_def)
  have m2: "(25 :: size_t) = 100 div field_sizes it2 ! field_idx it2"
    by (simp add: example_rect_iter_def it2_def)
  have g1: "grow_loop (iter_r example_rect_iter) (iter_p example_rect_iter) 1000 [0..<1]
              (True, 1, replicate (DIM example_rect_env) 0) = Inr (True, 10, [9, 0, 0])"
    by code_simp
  have g2: "grow_loop (iter_r it2) (iter_p it2) 25 [0..<1]
              (True, 1, replicate (DIM example_rect_env) 0) = Inr (True, 10, [9, 0, 0])"
    unfolding it2_def by code_simp
  have c: "1 < DIM example_rect_env"
    by (simp add: example_rect_env_def)
  have t1: "target_subrect example_rect_env (iter_r example_rect_iter) (iter_p example_rect_iter) 1000
            = Inr \<lparr>lo = [0, 3, 0], hi = [9, 9, 0]\<rparr>"
    by code_simp
  have t2: "target_subrect example_rect_env (iter_r it2) (iter_p it2) 25
            = Inr \<lparr>lo = [0, 0, 0], hi = [9, 1, 0]\<rparr>"
    unfolding it2_def by code_simp
  have i1: "image_dense_subrect example_rect_env \<lparr>lo = [0, 3, 0], hi = [9, 9, 0]\<rparr>
            = ((30, 99), \<lparr>lo = [0, 3, 0], hi = [9, 9, 0]\<rparr>)"
    by (simp add: example_rect_env_def example_linearize_def)
  have i2: "image_dense_subrect example_rect_env \<lparr>lo = [0, 0, 0], hi = [9, 1, 0]\<rparr>
            = ((0, 19), \<lparr>lo = [0, 0, 0], hi = [9, 1, 0]\<rparr>)"
    by (simp add: example_rect_env_def example_linearize_def)
  have b: "block_size example_rect_env = 1000"
    by (simp add: example_rect_env_def)
  have f: "iter_r example_rect_iter = example_rect" "iter_p example_rect_iter = [0, 3, 0]"
    "field_offsets example_rect_iter ! field_idx example_rect_iter = 0"
    "field_sizes example_rect_iter ! field_idx example_rect_iter = 4"
    "iter_r it2 = example_rect" "iter_p it2 = [0, 0, 0]"
    "field_offsets it2 ! field_idx it2 = 0" "field_sizes it2 ! field_idx it2 = 4"
    by (simp_all add: example_rect_iter_def it2_def)
  from rect_step_chunk_growth [OF s1 m1 g1 c] t1 i1 b
  have r1: "rect_chunk example_rect_env example_rect [0, 3, 0] 0 4 1000
     = Inr (\<lparr>base_offset = 184, bytes_per_chunk = 280, num_lines = 1, line_stride = 0,
             num_planes = 1, plane_stride = 0\<rparr>, \<lparr>lo = [0, 3, 0], hi = [9, 9, 0]\<rparr>)
     \<and> (280 :: size_t) = volume example_rect_env \<lparr>lo = [0, 3, 0], hi = [9, 9, 0]\<rparr> * 4"
    unfolding f by (elim exE conjE) auto
  from rect_step_chunk_growth [OF s2 m2 g2 c] t2 i2 b
  have r2: "rect_chunk example_rect_env example_rect [0, 0, 0] 0 4 25
     = Inr (\<lparr>base_offset = 64, bytes_per_chunk = 80, num_lines = 1, line_stride = 0,
             num_planes = 1, plane_stride = 0\<rparr>, \<lparr>lo = [0, 0, 0], hi = [9, 1, 0]\<rparr>)
     \<and> (80 :: size_t) = volume example_rect_env \<lparr>lo = [0, 0, 0], hi = [9, 1, 0]\<rparr> * 4"
    unfolding f by (elim exE conjE) auto
  from s1 s2 r1 r2 show ?thesis
    unfolding it2_def by simp
qed

subsection \<open>A budget below one element\<close>

lemma word_div_less_zero: "(a :: 64 word) < b \<Longrightarrow> a div b = 0"
  by (simp add: word_less_nat_alt unat_eq_zero [symmetric] unat_div)

lemma word_less_not_zero: "(a :: 64 word) < b \<Longrightarrow> b \<noteq> 0"
  by (auto simp: word_less_nat_alt)

text \<open>
  C5. A step with \<open>max_bytes\<close> below the size of one element of the current field
  returns 0 and leaves the iterator where it is, for each of the three iterators. The
  iterator is not done and has no tentative step open (the step asserts both). The
  iterator over an unstructured index space first fetches the valid mask when it has
  none; such an iterator has made no step yet and is at field 0, as its constructor
  and \<open>reset\<close> leave it, and the enumerator and the field index stay as they are. The
  iterator over a sparse index space looks up the layout of the field and the piece of
  the current point before it looks at the budget.
\<close>

theorem step_below_one_element:
  "(\<not> rect_done it \<and> \<not> tentative_valid it \<and> field_idx it < length (field_sizes it)
      \<and> field_idx it < length (field_offsets it)
      \<and> max_bytes < field_sizes it ! field_idx it \<longrightarrow>
      rect_step env max_bytes tentative it = Inr (0, None, it))
   \<and> (\<not> index_space_done its \<and> \<not> tentative_valid its \<and> field_idx its < length (field_sizes its)
      \<and> field_idx its < length (field_offsets its)
      \<and> valid_mask its \<noteq> None
      \<and> max_bytes < field_sizes its ! field_idx its \<longrightarrow>
      index_space_step envi max_bytes tentative its = Inr (0, None, its))
   \<and> (\<not> index_space_done its \<and> \<not> tentative_valid its \<and> field_idx its = 0
      \<and> field_sizes its \<noteq> [] \<and> field_offsets its \<noteq> []
      \<and> valid_mask its = None \<and> valid_mask_ready envi \<and> impl_valid_mask envi = Some m
      \<and> max_bytes < field_sizes its ! field_idx its \<longrightarrow>
      (\<exists>its'. index_space_step envi max_bytes tentative its = Inr (0, None, its')
           \<and> field_idx its' = field_idx its \<and> enumerator its' = enumerator its
           \<and> tentative_valid its' = tentative_valid its \<and> valid_mask its' = Some m))
   \<and> (\<not> z_done itz \<and> \<not> tentative_valid itz \<and> iter_valid envz (iter itz)
      \<and> field_idx itz < length (iter_fields itz)
      \<and> layout_fields envz (iter_fields itz ! field_idx itz) = Some fl
      \<and> find_piece envz (list_idx fl) (cur_point itz) \<noteq> None
      \<and> max_bytes < size_in_bytes fl \<longrightarrow>
      z_step envz max_bytes tentative itz = Inr (0, None, itz))"
proof (intro conjI impI)
  assume h: "\<not> rect_done it \<and> \<not> tentative_valid it \<and> field_idx it < length (field_sizes it)
      \<and> field_idx it < length (field_offsets it)
      \<and> max_bytes < field_sizes it ! field_idx it"
  then have lt: "max_bytes < field_sizes it ! field_idx it" by simp
  from h word_less_not_zero [OF lt] word_div_less_zero [OF lt]
  show "rect_step env max_bytes tentative it = Inr (0, None, it)"
    by (simp add: rect_step_def)
next
  assume h: "\<not> index_space_done its \<and> \<not> tentative_valid its \<and> field_idx its < length (field_sizes its)
      \<and> field_idx its < length (field_offsets its)
      \<and> valid_mask its \<noteq> None
      \<and> max_bytes < field_sizes its ! field_idx its"
  then have lt: "max_bytes < field_sizes its ! field_idx its" by simp
  from h have "fetch_valid_mask envi its = Inr (False, its)"
    by (auto simp: fetch_valid_mask_def)
  with h word_less_not_zero [OF lt] word_div_less_zero [OF lt]
  show "index_space_step envi max_bytes tentative its = Inr (0, None, its)"
    by (simp add: index_space_step_def)
next
  assume h: "\<not> index_space_done its \<and> \<not> tentative_valid its \<and> field_idx its = 0
      \<and> field_sizes its \<noteq> [] \<and> field_offsets its \<noteq> []
      \<and> valid_mask its = None \<and> valid_mask_ready envi \<and> impl_valid_mask envi = Some m
      \<and> max_bytes < field_sizes its ! field_idx its"
  then have lt: "max_bytes < field_sizes its ! 0" by (elim conjE) simp
  show "\<exists>its'. index_space_step envi max_bytes tentative its = Inr (0, None, its')
           \<and> field_idx its' = field_idx its \<and> enumerator its' = enumerator its
           \<and> tentative_valid its' = tentative_valid its \<and> valid_mask its' = Some m"
  proof (cases "find_enabled envi m = - 1")
    case True
    with h show ?thesis
      by (simp add: index_space_step_def fetch_valid_mask_def)
  next
    case False
    with h word_less_not_zero [OF lt] word_div_less_zero [OF lt] show ?thesis
      by (simp add: index_space_step_def fetch_valid_mask_def index_space_done_def)
  qed
next
  assume h: "\<not> z_done itz \<and> \<not> tentative_valid itz \<and> iter_valid envz (iter itz)
      \<and> field_idx itz < length (iter_fields itz)
      \<and> layout_fields envz (iter_fields itz ! field_idx itz) = Some fl
      \<and> find_piece envz (list_idx fl) (cur_point itz) \<noteq> None
      \<and> max_bytes < size_in_bytes fl"
  then have lt: "max_bytes < size_in_bytes fl" by simp
  from h word_less_not_zero [OF lt] word_div_less_zero [OF lt]
  show "z_step envz max_bytes tentative itz = Inr (0, None, itz)"
    by (auto simp: z_step_def)
qed



theorem step_below_one_element_witness:
  "rect_step example_rect_env 3 False example_rect_iter = Inr (0, None, example_rect_iter)
   \<and> index_space_step (example_index_space_env example_mask) 3 False example_index_space_iter
       = Inr (0, None, example_index_space_iter)
   \<and> index_space_step (example_index_space_env example_mask) 3 False
         (example_index_space_iter\<lparr>valid_mask := None\<rparr>)
       = Inr (0, None, example_index_space_iter)
   \<and> z_step example_z_env 3 False example_z_iter = Inr (0, None, example_z_iter)"
proof -
  have r: "rect_step example_rect_env 3 False example_rect_iter = Inr (0, None, example_rect_iter)"
    by (simp add: rect_step_def rect_done_def example_rect_iter_def)
  have i1: "index_space_step (example_index_space_env example_mask) 3 False example_index_space_iter
       = Inr (0, None, example_index_space_iter)"
    by (simp add: index_space_step_def fetch_valid_mask_def index_space_done_def
                  example_index_space_iter_def)
  have i2: "index_space_step (example_index_space_env example_mask) 3 False
         (example_index_space_iter\<lparr>valid_mask := None\<rparr>)
       = Inr (0, None, example_index_space_iter)"
    by (simp add: index_space_step_def fetch_valid_mask_def index_space_done_def
                  example_index_space_iter_def example_index_space_env_def example_mask_def)
  have z: "z_step example_z_env 3 False example_z_iter = Inr (0, None, example_z_iter)"
    by (simp add: z_step_def z_done_def example_z_iter_def example_z_env_def)
  from step_below_one_element
         [of example_rect_iter 3 example_rect_env False example_index_space_iter
             "example_index_space_env example_mask" example_mask example_z_iter example_z_env
             "\<lparr>list_idx = 0, rel_offset = 0, size_in_bytes = 4\<rparr>"]
       step_below_one_element
         [of example_rect_iter 3 example_rect_env False "example_index_space_iter\<lparr>valid_mask := None\<rparr>"
             "example_index_space_env example_mask" example_mask example_z_iter example_z_env
             "\<lparr>list_idx = 0, rel_offset = 0, size_in_bytes = 4\<rparr>"]
       r i1 i2 z
  show ?thesis by simp
qed

subsection \<open>Tentative steps\<close>

lemma carry_loop_agree:
  "length a = length b \<Longrightarrow> (\<And>i. i < length a \<Longrightarrow> i \<notin> set ds \<Longrightarrow> a ! i = b ! i) \<Longrightarrow>
   carry_loop r act ds (c, a) = carry_loop r act ds (c, b)"
proof (induction ds arbitrary: c a b)
  case Nil
  then have "a = b" by (intro nth_equalityI) simp_all
  then show ?case by simp
next
  case (Cons d ds)
  have step: "carry_loop r act ds (c', a[d := v]) = carry_loop r act ds (c', b[d := v])" for c' v
  proof (rule Cons.IH)
    show "length (a[d := v]) = length (b[d := v])"
      using Cons.prems(1) by simp
  next
    fix i assume "i < length (a[d := v])" "i \<notin> set ds"
    then show "a[d := v] ! i = b[d := v] ! i"
      using Cons.prems by (cases "i = d") simp_all
  qed
  show ?case by (simp add: step)
qed

lemma carry_loop_keeps:
  "carry_loop r act ds (c, np) = (c', np') \<Longrightarrow>
   length np' = length np \<and> (\<forall>i. i \<notin> set ds \<longrightarrow> np' ! i = np ! i)"
proof (induction ds arbitrary: c np)
  case Nil
  then show ?case by simp
next
  case (Cons d ds)
  from Cons.prems obtain c2 v where "carry_loop r act ds (c2, np[d := v]) = (c', np')"
    by (auto split: if_splits)
  from Cons.IH [OF this] show ?case by auto
qed

lemma carry_loop_restart:
  assumes "carry_loop r act ds (c, np) = (c', np')"
  shows "carry_loop r2 act2 ds (c2, np') = carry_loop r2 act2 ds (c2, np)"
proof (rule carry_loop_agree)
  from carry_loop_keeps [OF assms] show "length np' = length np" by simp
next
  fix i assume "i < length np'" "i \<notin> set ds"
  with carry_loop_keeps [OF assms] show "np' ! i = np ! i" by simp
qed

lemma z_carry_loop_agree:
  "length a = length b \<Longrightarrow> (\<And>i. i < length a \<Longrightarrow> i \<notin> set ds \<Longrightarrow> a ! i = b ! i) \<Longrightarrow>
   z_carry_loop r act ds (c, a) = z_carry_loop r act ds (c, b)"
proof (induction ds arbitrary: c a b)
  case Nil
  then have "a = b" by (intro nth_equalityI) simp_all
  then show ?case by simp
next
  case (Cons d ds)
  have step: "z_carry_loop r act ds (c', a[d := v]) = z_carry_loop r act ds (c', b[d := v])" for c' v
  proof (rule Cons.IH)
    show "length (a[d := v]) = length (b[d := v])"
      using Cons.prems(1) by simp
  next
    fix i assume "i < length (a[d := v])" "i \<notin> set ds"
    then show "a[d := v] ! i = b[d := v] ! i"
      using Cons.prems by (cases "i = d") simp_all
  qed
  show ?case by (simp add: step)
qed

lemma z_carry_loop_keeps:
  "z_carry_loop r act ds (c, np) = (c', np') \<Longrightarrow>
   length np' = length np \<and> (\<forall>i. i \<notin> set ds \<longrightarrow> np' ! i = np ! i)"
proof (induction ds arbitrary: c np)
  case Nil
  then show ?case by simp
next
  case (Cons d ds)
  from Cons.prems obtain c2 v where "z_carry_loop r act ds (c2, np[d := v]) = (c', np')"
    by (auto split: if_splits)
  from Cons.IH [OF this] show ?case by auto
qed

lemma z_carry_loop_restart:
  assumes "z_carry_loop r act ds (c, np) = (c', np')"
  shows "z_carry_loop r2 act2 ds (c2, np') = z_carry_loop r2 act2 ds (c2, np)"
proof (rule z_carry_loop_agree)
  from z_carry_loop_keeps [OF assms] show "length np' = length np" by simp
next
  fix i assume "i < length np'" "i \<notin> set ds"
  with z_carry_loop_keeps [OF assms] show "np' ! i = np ! i" by simp
qed



























section \<open>Properties of the GPU processor\<close>

subsection \<open>Peer access\<close>

lemma then_do_Inr: "then_do r f = Inr y \<longleftrightarrow> (\<exists>x. r = Inr x \<and> f x = Inr y)"
  by (cases r) (simp_all add: then_do_def)

lemma with_proc_Inr:
  "with_proc w p f = Inr y \<longleftrightarrow> (\<exists>P. procs w p = Some P \<and> f P = Inr y)"
  by (cases "procs w p") (simp_all add: with_proc_def)

lemma CHECK_CU_Inr:
  "CHECK_CU env c w = Inr w' \<longleftrightarrow> cu_result env (cu_trace w) c \<and> w' = cu_call_made c w"
  by (auto simp: CHECK_CU_def)

lemma pop_current_checked_Inr:
  "pop_current_checked env this w = Inr w' \<longleftrightarrow>
     cu_result env (cu_trace w) CuCtxPopCurrent
     \<and> (\<exists>P. procs w this = Some P
            \<and> w' = w\<lparr>procs := (procs w)(this \<mapsto> P\<lparr>proc_ctx := cu_popped env (cu_trace w)\<rparr>),
                     cu_trace := cu_trace w @ [CuCtxPopCurrent]\<rparr>)"
  by (auto simp: pop_current_checked_def store_popped_def then_do_Inr with_proc_Inr CHECK_CU_Inr
                 cu_call_made_def set_proc_def)

lemma handle_peer_access_Inr:
  "handle_peer_access env this peer_ctx w = Inr w' \<longleftrightarrow>
     (\<exists>P. procs w this = Some P
         \<and> cu_result env (cu_trace w) (CuCtxPushCurrent (proc_ctx P))
         \<and> cu_result env (cu_trace w @ [CuCtxPushCurrent (proc_ctx P)])
                         (CuCtxEnablePeerAccess peer_ctx 0)
         \<and> cu_result env (cu_trace w @ [CuCtxPushCurrent (proc_ctx P),
                                        CuCtxEnablePeerAccess peer_ctx 0]) CuCtxPopCurrent
         \<and> w' = w\<lparr>procs := (procs w)(this \<mapsto> P\<lparr>proc_ctx :=
                      cu_popped env (cu_trace w @ [CuCtxPushCurrent (proc_ctx P),
                                                    CuCtxEnablePeerAccess peer_ctx 0])\<rparr>),
                  cu_trace := cu_trace w @ [CuCtxPushCurrent (proc_ctx P),
                                            CuCtxEnablePeerAccess peer_ctx 0, CuCtxPopCurrent]\<rparr>)"
  by (auto simp: handle_peer_access_def then_do_Inr with_proc_Inr CHECK_CU_Inr
                 pop_current_checked_Inr cu_call_made_def)

lemma enable_peer_access_returns:
  assumes "procs w a = Some A" "procs w b = Some B" "\<forall>made c. cu_result env made c"
  shows "\<exists>w'. enable_peer_access env a b w = Inr w'"
  using assms
  by (simp add: enable_peer_access_def handle_peer_access_def with_proc_def then_do_def
                CHECK_CU_def pop_current_checked_def store_popped_def cu_call_made_def
                set_proc_def)

text \<open>
  C8 (as amended). \<open>A.enable_peer_access(B)\<close> returns when the driver accepts its
  calls. It has then made \<open>B\<close> enable the access to the context of \<open>A\<close> (in the
  context of \<open>B\<close>, \<open>cuCtxEnablePeerAccess\<close> with the context of \<open>A\<close>), and it has put
  \<open>B\<close> into the \<open>peer_gpus\<close> of \<open>A\<close> and of no other processor:
  \<open>A.can_access_peer(B)\<close> is true, and every other answer of \<open>can_access_peer\<close> is what
  it was before the call, that of \<open>B.can_access_peer(A)\<close> among them when \<open>B\<close> is not
  \<open>A\<close>.
\<close>

theorem enable_peer_access_records:
  "(procs w a = Some A \<and> procs w b = Some B \<and> (\<forall>made c. cu_result env made c) \<longrightarrow>
      (\<exists>w1. enable_peer_access env a b w = Inr w1))
   \<and> (enable_peer_access env a b w = Inr w' \<longrightarrow>
        can_access_peer w' a b = Inr True
      \<and> (\<forall>p q. (p, q) \<noteq> (a, b) \<longrightarrow> can_access_peer w' p q = can_access_peer w p q)
      \<and> (a \<noteq> b \<longrightarrow> can_access_peer w' b a = can_access_peer w b a)
      \<and> (\<exists>A B. procs w a = Some A \<and> procs w b = Some B
            \<and> cu_trace w' = cu_trace w @ [CuCtxPushCurrent (proc_ctx B),
                                           CuCtxEnablePeerAccess (proc_ctx A) 0, CuCtxPopCurrent]))"
proof (intro conjI impI)
  assume "procs w a = Some A \<and> procs w b = Some B \<and> (\<forall>made c. cu_result env made c)"
  then show "\<exists>w1. enable_peer_access env a b w = Inr w1"
    by (elim conjE) (rule enable_peer_access_returns)
next
  assume e: "enable_peer_access env a b w = Inr w'"
  then obtain A w1 A1 where
    A: "procs w a = Some A"
    and h: "handle_peer_access env b (proc_ctx A) w = Inr w1"
    and A1: "procs w1 a = Some A1"
    and w': "w' = w1\<lparr>procs := (procs w1)(a \<mapsto> A1\<lparr>peer_gpus := insert b (peer_gpus A1)\<rparr>)\<rparr>"
    by (auto simp: enable_peer_access_def with_proc_Inr then_do_Inr set_proc_def)
  from h obtain B where
    B: "procs w b = Some B"
    and w1: "w1 = w\<lparr>procs := (procs w)(b \<mapsto> B\<lparr>proc_ctx :=
                      cu_popped env (cu_trace w @ [CuCtxPushCurrent (proc_ctx B),
                                                    CuCtxEnablePeerAccess (proc_ctx A) 0])\<rparr>),
                  cu_trace := cu_trace w @ [CuCtxPushCurrent (proc_ctx B),
                                            CuCtxEnablePeerAccess (proc_ctx A) 0, CuCtxPopCurrent]\<rparr>"
    by (auto simp: handle_peer_access_Inr)
  have pg: "peer_gpus A1 = peer_gpus A"
    using A1 A B by (auto simp: w1 split: if_splits)
  show "can_access_peer w' a b = Inr True"
    by (simp add: can_access_peer_def with_proc_def w')
  have others: "can_access_peer w' p q = can_access_peer w p q" if "(p, q) \<noteq> (a, b)" for p q
    using that A B pg
    by (auto simp: can_access_peer_def with_proc_def w' w1 split: option.splits)
  then show "\<forall>p q. (p, q) \<noteq> (a, b) \<longrightarrow> can_access_peer w' p q = can_access_peer w p q"
    by simp
  show "can_access_peer w' b a = can_access_peer w b a" if "a \<noteq> b"
    using that by (intro others) simp
  have "cu_trace w' = cu_trace w @ [CuCtxPushCurrent (proc_ctx B),
                                           CuCtxEnablePeerAccess (proc_ctx A) 0, CuCtxPopCurrent]"
    by (simp add: w' w1)
  with A B show "\<exists>A B. procs w a = Some A \<and> procs w b = Some B
            \<and> cu_trace w' = cu_trace w @ [CuCtxPushCurrent (proc_ctx B),
                                           CuCtxEnablePeerAccess (proc_ctx A) 0, CuCtxPopCurrent]"
    by simp
qed

theorem enable_peer_access_records_witness:
  "(\<exists>w'. enable_peer_access example_gpu_env 1 2 example_world = Inr w'
        \<and> can_access_peer w' 1 2 = Inr True
        \<and> can_access_peer w' 2 1 = can_access_peer example_world 2 1
        \<and> cu_trace w' = [CuCtxPushCurrent 102, CuCtxEnablePeerAccess 101 0, CuCtxPopCurrent])
   \<and> can_access_peer example_world 2 1 = Inr False"
proof -
  obtain w' where e: "enable_peer_access example_gpu_env 1 2 example_world = Inr w'"
    by (simp add: enable_peer_access_def handle_peer_access_def with_proc_def then_do_def
                  CHECK_CU_def pop_current_checked_def store_popped_def example_world_def
                  example_gpu_env_def cu_call_made_def set_proc_def)
  have f: "can_access_peer example_world 2 1 = Inr False"
    by (simp add: can_access_peer_def with_proc_def example_world_def example_gpu_def)
  from enable_peer_access_records
         [where env = example_gpu_env and a = 1 and b = 2 and w = example_world and w' = w',
          THEN conjunct2, THEN mp, OF e] f e
  show ?thesis
    by (auto simp: example_world_def example_gpu_def)
qed

text \<open>
  C8 does not hold: after \<open>enable_peer_access\<close> on processor 1 with peer 2, processor 1
  has the peer in its set, and processor 2 does not have processor 1 in its own.
\<close>

theorem enable_peer_access_counterexample:
  "then_do (enable_peer_access example_gpu_env 1 2 example_world) (\<lambda>w'. can_access_peer w' 1 2)
     = Inr True
   \<and> then_do (enable_peer_access example_gpu_env 1 2 example_world) (\<lambda>w'. can_access_peer w' 2 1)
     = Inr False"
  by (simp add: enable_peer_access_def handle_peer_access_def with_proc_def then_do_def
                CHECK_CU_def pop_current_checked_def store_popped_def example_world_def
                example_gpu_env_def can_access_peer_def set_proc_def cu_call_made_def
                example_gpu_def)



subsection \<open>Registering host memory\<close>

lemma register_host_memory_again:
  assumes "register_host_memory env this base sz w = Inr w1" "procs w this = Some P"
      and "\<not> shutdown P"
  shows "cu_trace w1 = cu_trace w @ [CuCtxPushCurrent (proc_ctx P), CuMemHostRegister base sz,
                                     CuCtxPopCurrent]
       \<and> (\<exists>P1. procs w1 this = Some P1 \<and> \<not> shutdown P1
              \<and> proc_ctx P1 = cu_popped env (cu_trace w @ [CuCtxPushCurrent (proc_ctx P),
                                                           CuMemHostRegister base sz]))"
  using assms
  by (auto simp: register_host_memory_def with_proc_def then_do_Inr CHECK_CU_Inr
                 pop_current_checked_Inr cu_call_made_def)

text \<open>
  C9 (as amended). Once \<open>shutdown\<close> is set, \<open>register_host_memory\<close> does nothing.
  Before that, every call pushes the context of the processor, registers the region
  with the driver (\<open>cuMemHostRegister\<close>) and pops the context again, and aborts when
  the driver reports an error for one of the three calls; the processor keeps no record
  of the regions it has registered. A second call with the same arguments therefore
  registers the region with the driver a second time, and does not leave things as
  the first call left them.
\<close>

theorem register_host_memory_calls:
  "(procs w this = Some P \<and> shutdown P \<longrightarrow> register_host_memory env this base sz w = Inr w)
   \<and> (procs w this = Some P \<and> \<not> shutdown P \<longrightarrow>
        register_host_memory env this base sz w =
          (if cu_result env (cu_trace w) (CuCtxPushCurrent (proc_ctx P))
              \<and> cu_result env (cu_trace w @ [CuCtxPushCurrent (proc_ctx P)])
                             (CuMemHostRegister base sz)
              \<and> cu_result env (cu_trace w @ [CuCtxPushCurrent (proc_ctx P),
                                            CuMemHostRegister base sz]) CuCtxPopCurrent
           then Inr (w\<lparr>procs := (procs w)(this \<mapsto> P\<lparr>proc_ctx :=
                          cu_popped env (cu_trace w @ [CuCtxPushCurrent (proc_ctx P),
                                                        CuMemHostRegister base sz])\<rparr>),
                       cu_trace := cu_trace w @ [CuCtxPushCurrent (proc_ctx P),
                                                 CuMemHostRegister base sz, CuCtxPopCurrent]\<rparr>)
           else Inl DriverError))
   \<and> (procs w this = Some P \<and> \<not> shutdown P
      \<and> register_host_memory env this base sz w = Inr w1
      \<and> register_host_memory env this base sz w1 = Inr w2 \<longrightarrow>
        w2 \<noteq> w1
      \<and> (\<exists>c. cu_trace w2 = cu_trace w @ [CuCtxPushCurrent (proc_ctx P), CuMemHostRegister base sz,
                                         CuCtxPopCurrent, CuCtxPushCurrent c,
                                         CuMemHostRegister base sz, CuCtxPopCurrent]))"
proof (intro conjI impI)
  assume "procs w this = Some P \<and> shutdown P"
  then show "register_host_memory env this base sz w = Inr w"
    by (simp add: register_host_memory_def with_proc_def)
next
  assume "procs w this = Some P \<and> \<not> shutdown P"
  then show "register_host_memory env this base sz w =
          (if cu_result env (cu_trace w) (CuCtxPushCurrent (proc_ctx P))
              \<and> cu_result env (cu_trace w @ [CuCtxPushCurrent (proc_ctx P)])
                             (CuMemHostRegister base sz)
              \<and> cu_result env (cu_trace w @ [CuCtxPushCurrent (proc_ctx P),
                                            CuMemHostRegister base sz]) CuCtxPopCurrent
           then Inr (w\<lparr>procs := (procs w)(this \<mapsto> P\<lparr>proc_ctx :=
                          cu_popped env (cu_trace w @ [CuCtxPushCurrent (proc_ctx P),
                                                        CuMemHostRegister base sz])\<rparr>),
                       cu_trace := cu_trace w @ [CuCtxPushCurrent (proc_ctx P),
                                                 CuMemHostRegister base sz, CuCtxPopCurrent]\<rparr>)
           else Inl DriverError)"
    by (simp add: register_host_memory_def with_proc_def then_do_def CHECK_CU_def
                  pop_current_checked_def store_popped_def cu_call_made_def set_proc_def)
next
  assume h: "procs w this = Some P \<and> \<not> shutdown P
      \<and> register_host_memory env this base sz w = Inr w1
      \<and> register_host_memory env this base sz w1 = Inr w2"
  then have r1: "register_host_memory env this base sz w = Inr w1"
    and r2: "register_host_memory env this base sz w1 = Inr w2"
    and P: "procs w this = Some P" "\<not> shutdown P"
    by simp_all
  from register_host_memory_again [OF r1 P]
  obtain P1 where t1: "cu_trace w1 = cu_trace w @ [CuCtxPushCurrent (proc_ctx P),
                                     CuMemHostRegister base sz, CuCtxPopCurrent]"
    and P1: "procs w1 this = Some P1" "\<not> shutdown P1"
    by auto
  from register_host_memory_again [OF r2 P1]
  have t2: "cu_trace w2 = cu_trace w1 @ [CuCtxPushCurrent (proc_ctx P1),
                                     CuMemHostRegister base sz, CuCtxPopCurrent]"
    by simp
  then have "cu_trace w2 \<noteq> cu_trace w1" by simp
  then show "w2 \<noteq> w1" by auto
  from t1 t2 show "\<exists>c. cu_trace w2 = cu_trace w @ [CuCtxPushCurrent (proc_ctx P),
                                         CuMemHostRegister base sz,
                                         CuCtxPopCurrent, CuCtxPushCurrent c,
                                         CuMemHostRegister base sz, CuCtxPopCurrent]"
    by simp
qed

theorem register_host_memory_calls_witness:
  "register_host_memory example_gpu_env 1 4096 256 example_world
     = Inr (example_world\<lparr>cu_trace := [CuCtxPushCurrent 101, CuMemHostRegister 4096 256,
                                       CuCtxPopCurrent]\<rparr>)
   \<and> register_host_memory example_gpu_env 1 4096 256
        (example_world\<lparr>cu_trace := [CuCtxPushCurrent 101, CuMemHostRegister 4096 256,
                                    CuCtxPopCurrent]\<rparr>)
     = Inr (example_world\<lparr>cu_trace := [CuCtxPushCurrent 101, CuMemHostRegister 4096 256,
                                       CuCtxPopCurrent, CuCtxPushCurrent 101,
                                       CuMemHostRegister 4096 256, CuCtxPopCurrent]\<rparr>)
   \<and> register_host_memory example_gpu_env 1 4096 256
        (example_world\<lparr>procs := (procs example_world)(1 \<mapsto> (example_gpu 1)\<lparr>shutdown := True\<rparr>)\<rparr>)
     = Inr (example_world\<lparr>procs := (procs example_world)(1 \<mapsto> (example_gpu 1)\<lparr>shutdown := True\<rparr>)\<rparr>)"
proof -
  define w1 where "w1 = example_world\<lparr>cu_trace := [CuCtxPushCurrent 101, CuMemHostRegister 4096 256,
                                       CuCtxPopCurrent]\<rparr>"
  define ws where "ws = example_world\<lparr>procs := (procs example_world)(1 \<mapsto> (example_gpu 1)\<lparr>shutdown := True\<rparr>)\<rparr>"
  have p: "procs example_world 1 = Some (example_gpu 1) \<and> \<not> shutdown (example_gpu 1)"
    by (simp add: example_world_def example_gpu_def)
  have p1: "procs w1 1 = Some (example_gpu 1) \<and> \<not> shutdown (example_gpu 1)"
    by (simp add: w1_def example_world_def example_gpu_def)
  have ps: "procs ws 1 = Some ((example_gpu 1)\<lparr>shutdown := True\<rparr>)
            \<and> shutdown ((example_gpu 1)\<lparr>shutdown := True\<rparr>)"
    by (simp add: ws_def)
  note t = register_host_memory_calls [where env = example_gpu_env and this = 1 and base = 4096
                                         and sz = 256]
  from t [where w = example_world and P = "example_gpu 1", THEN conjunct2, THEN conjunct1, THEN mp, OF p]
  have a: "register_host_memory example_gpu_env 1 4096 256 example_world = Inr w1"
    by (simp add: w1_def example_gpu_env_def example_gpu_def example_world_def fun_eq_iff)
  from t [where w = w1 and P = "example_gpu 1", THEN conjunct2, THEN conjunct1, THEN mp, OF p1]
  have b: "register_host_memory example_gpu_env 1 4096 256 w1
     = Inr (example_world\<lparr>cu_trace := [CuCtxPushCurrent 101, CuMemHostRegister 4096 256,
                                       CuCtxPopCurrent, CuCtxPushCurrent 101,
                                       CuMemHostRegister 4096 256, CuCtxPopCurrent]\<rparr>)"
    by (simp add: w1_def example_gpu_env_def example_gpu_def example_world_def fun_eq_iff)
  from t [where w = ws and P = "(example_gpu 1)\<lparr>shutdown := True\<rparr>", THEN conjunct1, THEN mp, OF ps]
  have c: "register_host_memory example_gpu_env 1 4096 256 ws = Inr ws" .
  from a b c show ?thesis
    unfolding w1_def ws_def by simp
qed

text \<open>
  C9 does not hold: a second call with the same arguments registers the region with the
  driver again, so that two calls leave six driver calls behind where one call leaves
  three; and with a driver that refuses to register a region twice, the second call
  aborts.
\<close>

theorem register_host_memory_counterexample:
  "then_do (register_host_memory example_gpu_env 1 4096 256 example_world)
           (register_host_memory example_gpu_env 1 4096 256)
     = Inr (example_world\<lparr>cu_trace := [CuCtxPushCurrent 101, CuMemHostRegister 4096 256,
                                       CuCtxPopCurrent, CuCtxPushCurrent 101,
                                       CuMemHostRegister 4096 256, CuCtxPopCurrent]\<rparr>)
   \<and> register_host_memory example_gpu_env 1 4096 256 example_world
     = Inr (example_world\<lparr>cu_trace := [CuCtxPushCurrent 101, CuMemHostRegister 4096 256,
                                       CuCtxPopCurrent]\<rparr>)
   \<and> register_host_memory example_strict_env 1 4096 256 example_world
     = Inr (example_world\<lparr>cu_trace := [CuCtxPushCurrent 101, CuMemHostRegister 4096 256,
                                       CuCtxPopCurrent]\<rparr>)
   \<and> then_do (register_host_memory example_strict_env 1 4096 256 example_world)
             (register_host_memory example_strict_env 1 4096 256)
     = Inl DriverError"
  by (simp add: register_host_memory_def with_proc_def then_do_def CHECK_CU_def
                pop_current_checked_def store_popped_def cu_call_made_def set_proc_def
                example_world_def example_gpu_env_def example_strict_env_def example_gpu_def
                fun_eq_iff)


subsection \<open>Task streams\<close>




























end
